theory Spec2Isabelle
  imports Complex_Main "HOL-Library.Word" "HOL-Library.Log_Nat"
begin

section \<open>Image preprocessing for ESP32-CAM inference (image_utils.h)\<close>

text \<open>
  The header \<^verbatim>\<open>image_utils.h\<close> holds two functions: \<^verbatim>\<open>bilinear_interpolate\<close> and
  \<^verbatim>\<open>preprocessImageForML\<close>. Both are embedded below, statement by statement.

  Conventions of the embedding:
  \<^item> \<^verbatim>\<open>uint8_t\<close> and \<^verbatim>\<open>int8_t\<close> are 8-bit words (read with \<open>uint\<close> and \<open>sint\<close>);
  \<^item> \<^verbatim>\<open>int\<close> and \<^verbatim>\<open>size_t\<close> are \<open>int\<close> and \<open>nat\<close> without wrap-around: the
    model describes frames and tensors whose sizes fit the 32-bit integers of the target;
  \<^item> \<^verbatim>\<open>float\<close> is IEEE 754 binary32: a value is the rational it denotes, and every
    arithmetic operation and conversion rounds its exact result to the nearest binary32
    value, ties to even (each C operation rounded on its own, no contraction of a
    product and a sum into one rounding). Infinities and NaN are not modelled: they can
    arise only from the division by \<^verbatim>\<open>target_size = 0\<close>, whose result the code never
    uses, and from magnitudes of \<open>2 ^ 128\<close> and more, which sizes that fit 32 bits do
    not reach;
  \<^item> undefined behaviour of C (a read or write outside a buffer, a conversion from
    \<^verbatim>\<open>float\<close> to \<^verbatim>\<open>uint8_t\<close> whose result does not fit) is an error value \<open>Inl\<close>;
  \<^item> \<^verbatim>\<open>malloc\<close> and \<^verbatim>\<open>fmt2rgb888\<close> are not part of the header: they are parameters
    (\<open>env\<close>);
  \<^item> pointers that the code tests against null are options.
\<close>

subsection \<open>binary32 arithmetic\<close>

type_synonym float32 = rat

definition round_half_even :: "rat \<Rightarrow> int" where
  "round_half_even x =
     (let f = \<lfloor>x\<rfloor>; d = x - of_int f
      in if d < 1 / 2 then f
         else if 1 / 2 < d then f + 1
         else if even f then f else f + 1)"

text \<open>
  The binary exponent \<open>e\<close> of a non-zero rational \<open>q\<close>:
  \<open>2 powi e \<le> \<bar>q\<bar> < 2 powi (e + 1)\<close> (lemmas \<open>f32_exponent_le\<close>, \<open>f32_exponent_gt\<close>).
\<close>

definition f32_exponent :: "rat \<Rightarrow> int" where
  "f32_exponent q =
     (let (a, b) = quotient_of q; k = bitlen \<bar>a\<bar> - bitlen b
      in if 2 powi k \<le> \<bar>q\<bar> then k else k - 1)"

text \<open>
  Rounding to 24 significant bits; below \<open>2 powi (-126)\<close> the spacing stays that of the
  subnormal numbers.
\<close>

definition f32_round :: "rat \<Rightarrow> float32" where
  "f32_round q =
     (if q = 0 then 0
      else let e = max (f32_exponent q) (- 126); ulp = 2 powi (e - 23)
           in of_int (round_half_even (q / ulp)) * ulp)"

definition fadd :: "float32 \<Rightarrow> float32 \<Rightarrow> float32" where
  "fadd a b = f32_round (a + b)"

definition fsub :: "float32 \<Rightarrow> float32 \<Rightarrow> float32" where
  "fsub a b = f32_round (a - b)"

definition fmul :: "float32 \<Rightarrow> float32 \<Rightarrow> float32" where
  "fmul a b = f32_round (a * b)"

definition fdiv :: "float32 \<Rightarrow> float32 \<Rightarrow> float32" where
  "fdiv a b = f32_round (a / b)"

definition int_to_float :: "int \<Rightarrow> float32" where
  "int_to_float n = f32_round (of_int n)"

text \<open>\<^verbatim>\<open>(int)x\<close>: the fractional part is discarded (truncation toward zero).\<close>

definition float_to_int :: "float32 \<Rightarrow> int" where
  "float_to_int q = (if 0 \<le> q then \<lfloor>q\<rfloor> else \<lceil>q\<rceil>)"

subsection \<open>Data\<close>

type_synonym uint8_t = "8 word"
type_synonym int8_t = "8 word"

datatype error = ReadOutOfBounds | WriteOutOfBounds | FloatToIntOutOfRange

text \<open>Sequencing: the first undefined step ends the computation.\<close>

fun bind_e :: "error + 'a \<Rightarrow> ('a \<Rightarrow> error + 'b) \<Rightarrow> error + 'b" where
  "bind_e (Inl e) f = Inl e"
| "bind_e (Inr v) f = f v"

text \<open>\<^verbatim>\<open>(uint8_t)val\<close>: truncation; undefined when the integral part is not in 0..255.\<close>

definition float_to_uint8 :: "float32 \<Rightarrow> error + uint8_t" where
  "float_to_uint8 q =
     (let t = float_to_int q
      in if 0 \<le> t \<and> t \<le> 255 then Inr (word_of_int t) else Inl FloatToIntOutOfRange)"

text \<open>Reading \<^verbatim>\<open>img[i]\<close> from a buffer of \<open>length img\<close> bytes.\<close>

definition rd :: "uint8_t list \<Rightarrow> int \<Rightarrow> error + uint8_t" where
  "rd img i = (if 0 \<le> i \<and> i < int (length img) then Inr (img ! nat i) else Inl ReadOutOfBounds)"

subsection \<open>bilinear_interpolate (lines 13-37)\<close>

definition bilinear_interpolate ::
  "uint8_t list \<Rightarrow> int \<Rightarrow> int \<Rightarrow> float32 \<Rightarrow> float32 \<Rightarrow> error + uint8_t" where
  "bilinear_interpolate img width height x y =
     (let x1 = float_to_int x;
          y1 = float_to_int y;
          x2 = x1 + 1;
          y2 = y1 + 1;
          x2 = (if x2 \<ge> width then width - 1 else x2);
          y2 = (if y2 \<ge> height then height - 1 else y2);
          dx = fsub x (int_to_float x1);
          dy = fsub y (int_to_float y1)
      in bind_e (rd img (y1 * width + x1)) (\<lambda>p1.
         bind_e (rd img (y1 * width + x2)) (\<lambda>p2.
         bind_e (rd img (y2 * width + x1)) (\<lambda>p3.
         bind_e (rd img (y2 * width + x2)) (\<lambda>p4.
         (let one = int_to_float 1;
              val =
                fadd (fadd (fadd
                  (fmul (fmul (int_to_float (uint p1)) (fsub one dx)) (fsub one dy))
                  (fmul (fmul (int_to_float (uint p2)) dx) (fsub one dy)))
                  (fmul (fmul (int_to_float (uint p3)) (fsub one dx)) dy))
                  (fmul (fmul (int_to_float (uint p4)) dx) dy)
          in float_to_uint8 val))))))"

subsection \<open>The frame, the tensor and the environment\<close>

datatype pixformat_t =
  PIXFORMAT_RGB565 | PIXFORMAT_YUV422 | PIXFORMAT_YUV420 | PIXFORMAT_GRAYSCALE
  | PIXFORMAT_JPEG | PIXFORMAT_RGB888 | PIXFORMAT_RAW | PIXFORMAT_RGB444 | PIXFORMAT_RGB555

text \<open>The fields of \<^verbatim>\<open>camera_fb_t\<close> (esp_camera.h) that the code reads.\<close>

record camera_fb_t =
  buf :: "uint8_t list"
  len :: nat
  width :: nat
  height :: nat
  format :: pixformat_t

datatype buffer = Rgb888_buf | Gray_buf

datatype serial_event = Println string | Printf string "int list"

text \<open>
  What the function can touch: the frame behind \<^verbatim>\<open>fb\<close> and the tensor behind
  \<^verbatim>\<open>output_buffer\<close> (\<open>None\<close> for a null pointer), the blocks obtained from \<^verbatim>\<open>malloc\<close>
  and not yet freed, and the serial port. \<open>stores\<close> records, in program order, every
  index stored through \<^verbatim>\<open>output_buffer\<close>.
\<close>

record world =
  fb :: "camera_fb_t option"
  output_buffer :: "int8_t list option"
  heap :: "(buffer \<times> nat) list"
  serial :: "serial_event list"
  stores :: "nat list"

text \<open>
  The two external functions. \<open>malloc_ok env b n\<close> tells whether the request of \<open>n\<close>
  bytes for buffer \<open>b\<close> returns a non-null pointer. \<open>fmt2rgb888 env\<close> is \<open>None\<close> when the
  conversion reports failure, and otherwise the contents of the RGB buffer after it.
\<close>

record env =
  malloc_ok :: "buffer \<Rightarrow> nat \<Rightarrow> bool"
  fmt2rgb888 :: "uint8_t list \<Rightarrow> nat \<Rightarrow> pixformat_t \<Rightarrow> uint8_t list option"

definition println :: "string \<Rightarrow> world \<Rightarrow> world" where
  "println s w = w\<lparr>serial := serial w @ [Println s]\<rparr>"

definition printf :: "string \<Rightarrow> int list \<Rightarrow> world \<Rightarrow> world" where
  "printf s args w = w\<lparr>serial := serial w @ [Printf s args]\<rparr>"

definition allocated :: "buffer \<Rightarrow> nat \<Rightarrow> world \<Rightarrow> world" where
  "allocated b n w = w\<lparr>heap := (b, n) # heap w\<rparr>"

definition free :: "buffer \<Rightarrow> nat \<Rightarrow> world \<Rightarrow> world" where
  "free b n w = w\<lparr>heap := remove1 (b, n) (heap w)\<rparr>"

subsection \<open>preprocessImageForML (lines 40-107)\<close>

text \<open>Line 81: \<^verbatim>\<open>0.299f * r + 0.587f * g + 0.114f * b\<close>.\<close>

definition luma :: "uint8_t \<Rightarrow> uint8_t \<Rightarrow> uint8_t \<Rightarrow> float32" where
  "luma r g b =
     fadd (fadd (fmul (f32_round (299 / 1000)) (int_to_float (uint r)))
                (fmul (f32_round (587 / 1000)) (int_to_float (uint g))))
          (fmul (f32_round (114 / 1000)) (int_to_float (uint b)))"

text \<open>
  Lines 77-82, the loop over \<open>i\<close>. The grayscale buffer is filled at the indices
  0, 1, 2, ... in this order, so it is built by appending.
\<close>

fun rgb_to_gray :: "uint8_t list \<Rightarrow> nat list \<Rightarrow> uint8_t list \<Rightarrow> error + uint8_t list" where
  "rgb_to_gray rgb888_buf [] gray_buf = Inr gray_buf"
| "rgb_to_gray rgb888_buf (i # rest) gray_buf =
     bind_e (rd rgb888_buf (int i * 3)) (\<lambda>r.
     bind_e (rd rgb888_buf (int i * 3 + 1)) (\<lambda>g.
     bind_e (rd rgb888_buf (int i * 3 + 2)) (\<lambda>b.
     bind_e (float_to_uint8 (luma r g b)) (\<lambda>v.
     rgb_to_gray rgb888_buf rest (gray_buf @ [v])))))"

text \<open>Line 99: \<^verbatim>\<open>(int8_t)(pixel - 128)\<close>, the subtraction done in \<^verbatim>\<open>int\<close>.\<close>

definition quantize :: "uint8_t \<Rightarrow> int8_t" where
  "quantize pixel = word_of_int (uint pixel - 128)"

text \<open>The store \<^verbatim>\<open>output_buffer[i] = v\<close> into a tensor of \<open>length out\<close> elements.\<close>

definition store_output :: "int \<Rightarrow> int8_t \<Rightarrow> int8_t list \<times> nat list \<Rightarrow> error + int8_t list \<times> nat list" where
  "store_output i v s =
     (case s of (out, tr) \<Rightarrow>
        if 0 \<le> i \<and> i < int (length out) then Inr (out[nat i := v], tr @ [nat i])
        else Inl WriteOutOfBounds)"

text \<open>Lines 93-96: the sample of output pixel \<open>(x, y)\<close>.\<close>

definition sample :: "uint8_t list \<Rightarrow> int \<Rightarrow> int \<Rightarrow> float32 \<Rightarrow> float32 \<Rightarrow> nat \<Rightarrow> nat \<Rightarrow> error + uint8_t" where
  "sample gray_buf src_width src_height x_ratio y_ratio x y =
     (let src_x = fmul (int_to_float (int x)) x_ratio;
          src_y = fmul (int_to_float (int y)) y_ratio
      in bilinear_interpolate gray_buf src_width src_height src_x src_y)"

text \<open>
  Lines 91-101. The loops run only for a positive \<^verbatim>\<open>target_size\<close>, with counters from 0
  to \<^verbatim>\<open>target_size - 1\<close>: the counters are naturals, the inner loop is \<open>resize_row\<close> over
  the list of its \<open>x\<close>, the outer one \<open>resize_rows\<close> over the list of its \<open>y\<close>. The
  parameter \<^verbatim>\<open>target_size\<close> is written \<open>target_size'\<close>, the unprimed name being a constant
  of the word library.
\<close>

fun resize_row ::
  "uint8_t list \<Rightarrow> int \<Rightarrow> int \<Rightarrow> int \<Rightarrow> float32 \<Rightarrow> float32 \<Rightarrow> nat \<Rightarrow> nat list
     \<Rightarrow> int8_t list \<times> nat list \<Rightarrow> error + int8_t list \<times> nat list" where
  "resize_row gray_buf src_width src_height target_size' x_ratio y_ratio y [] s = Inr s"
| "resize_row gray_buf src_width src_height target_size' x_ratio y_ratio y (x # xs) s =
     bind_e (sample gray_buf src_width src_height x_ratio y_ratio x y) (\<lambda>pixel.
     bind_e (store_output (int y * target_size' + int x) (quantize pixel) s) (\<lambda>s'.
     resize_row gray_buf src_width src_height target_size' x_ratio y_ratio y xs s'))"

fun resize_rows ::
  "uint8_t list \<Rightarrow> int \<Rightarrow> int \<Rightarrow> int \<Rightarrow> float32 \<Rightarrow> float32 \<Rightarrow> nat list
     \<Rightarrow> int8_t list \<times> nat list \<Rightarrow> error + int8_t list \<times> nat list" where
  "resize_rows gray_buf src_width src_height target_size' x_ratio y_ratio [] s = Inr s"
| "resize_rows gray_buf src_width src_height target_size' x_ratio y_ratio (y # ys) s =
     bind_e (resize_row gray_buf src_width src_height target_size' x_ratio y_ratio y
               [0..<nat target_size'] s) (\<lambda>s'.
     resize_rows gray_buf src_width src_height target_size' x_ratio y_ratio ys s')"

text \<open>Lines 88-101: the two ratios and the nested loops.\<close>

definition resize_image ::
  "uint8_t list \<Rightarrow> int \<Rightarrow> int \<Rightarrow> int \<Rightarrow> int8_t list \<times> nat list \<Rightarrow> error + int8_t list \<times> nat list" where
  "resize_image gray_buf src_width src_height target_size' s =
     (let x_ratio = fdiv (int_to_float src_width) (int_to_float target_size');
          y_ratio = fdiv (int_to_float src_height) (int_to_float target_size')
      in resize_rows gray_buf src_width src_height target_size' x_ratio y_ratio
           [0..<nat target_size'] s)"

text \<open>
  The whole function. The result is \<open>Inr (r, w')\<close> when the call returns \<open>r\<close> and leaves
  the world \<open>w'\<close>. In line 56 the second disjunct \<^verbatim>\<open>!rgb888_buf\<close> is false whenever it is
  evaluated (line 48 has returned otherwise), so the test is that of \<^verbatim>\<open>jpeg_converted\<close>.
\<close>

definition preprocessImageForML :: "env \<Rightarrow> int \<Rightarrow> world \<Rightarrow> error + bool \<times> world" where
  "preprocessImageForML env target_size' w =
     (case fb w of None \<Rightarrow> Inr (False, w) | Some f \<Rightarrow>
     (case output_buffer w of None \<Rightarrow> Inr (False, w) | Some out \<Rightarrow>
      (let w1 = println ''Converting JPEG to RGB...'' w;
           rgb888_len = width f * height f * 3
       in if \<not> malloc_ok env Rgb888_buf rgb888_len
          then Inr (False, println ''Failed to allocate RGB888 buffer'' w1)
          else
           (let w2 = allocated Rgb888_buf rgb888_len w1
            in (case fmt2rgb888 env (buf f) (len f) (format f) of
                 None \<Rightarrow> Inr (False, println ''JPEG conversion failed'' w2)
               | Some rgb888_buf \<Rightarrow>
                  (let src_width = int (width f);
                       src_height = int (height f);
                       w3 = printf ''Original size: %dx%d\<newline>'' [src_width, src_height] w2;
                       w4 = printf ''Target size: %dx%d\<newline>'' [target_size', target_size'] w3;
                       gray_len = nat (src_width * src_height)
                   in if \<not> malloc_ok env Gray_buf gray_len
                      then Inr (False,
                             println ''Failed to allocate grayscale buffer''
                               (free Rgb888_buf rgb888_len w4))
                      else
                       (let w5 = println ''Converting to grayscale...''
                                   (allocated Gray_buf gray_len w4)
                        in bind_e (rgb_to_gray rgb888_buf [0..<gray_len] []) (\<lambda>gray_buf.
                           (let w6 = println ''Resizing image...''
                                       (free Rgb888_buf rgb888_len w5)
                            in bind_e (resize_image gray_buf src_width src_height target_size'
                                         (out, stores w6)) (\<lambda>s'.
                               Inr (True,
                                    println ''Preprocessing complete!''
                                      (free Gray_buf gray_len
                                         (w6\<lparr>output_buffer := Some (fst s'),
                                              stores := snd s'\<rparr>)))))))))))))"

subsection \<open>Auxiliary definitions\<close>

text \<open>The index stored by the loop body for the counters \<open>y\<close> and \<open>x\<close>.\<close>

definition idx :: "int \<Rightarrow> nat \<Rightarrow> nat \<Rightarrow> nat" where
  "idx t y x = nat (int y * t + int x)"

text \<open>The sample of output pixel \<open>(x, y)\<close> with the two ratios of lines 88-89.\<close>

definition resampled :: "uint8_t list \<Rightarrow> int \<Rightarrow> int \<Rightarrow> int \<Rightarrow> nat \<Rightarrow> nat \<Rightarrow> error + uint8_t" where
  "resampled gray_buf src_width src_height target_size' x y =
     sample gray_buf src_width src_height
       (fdiv (int_to_float src_width) (int_to_float target_size'))
       (fdiv (int_to_float src_height) (int_to_float target_size')) x y"

subsection \<open>The resampler as the specification words it\<close>

text \<open>
  Section 4.2 of the specification, step by step. The interpolation primitive
  (\<open>spec_bilinear\<close>): the floors of the source coordinates, the neighbours clamped with a
  minimum, the fractional offsets, the four weights, each the product of its two factors,
  and the weighted sum of the four neighbouring samples. Its arithmetic is that of the
  rational numbers: nothing is rounded. The source coordinates of an output pixel
  (\<open>spec_weighted_sum\<close>) are the binary32 numbers \<open>x * (src_width / target_size)\<close> and
  \<open>y * (src_height / target_size)\<close>, and the result (\<open>spec_resample\<close>) is the weighted sum
  truncated.
\<close>

definition truncate_toward_zero :: "rat \<Rightarrow> int" where
  "truncate_toward_zero q = (if q < 0 then - \<lfloor>- q\<rfloor> else \<lfloor>q\<rfloor>)"

definition neighbour :: "uint8_t list \<Rightarrow> int \<Rightarrow> int \<Rightarrow> int \<Rightarrow> float32" where
  "neighbour img w x y = of_int (uint (img ! nat (y * w + x)))"

definition spec_bilinear :: "uint8_t list \<Rightarrow> int \<Rightarrow> int \<Rightarrow> rat \<Rightarrow> rat \<Rightarrow> rat" where
  "spec_bilinear img w h src_x src_y =
     (let x1 = \<lfloor>src_x\<rfloor>;
          y1 = \<lfloor>src_y\<rfloor>;
          x2 = min (x1 + 1) (w - 1);
          y2 = min (y1 + 1) (h - 1);
          dx = src_x - of_int x1;
          dy = src_y - of_int y1;
          p1 = neighbour img w x1 y1;
          p2 = neighbour img w x2 y1;
          p3 = neighbour img w x1 y2;
          p4 = neighbour img w x2 y2
      in p1 * ((1 - dx) * (1 - dy)) + p2 * (dx * (1 - dy)) + p3 * ((1 - dx) * dy)
           + p4 * (dx * dy))"

definition spec_weighted_sum :: "uint8_t list \<Rightarrow> int \<Rightarrow> int \<Rightarrow> int \<Rightarrow> nat \<Rightarrow> nat \<Rightarrow> rat" where
  "spec_weighted_sum gray w h t x y =
     spec_bilinear gray w h
       (fmul (int_to_float (int x)) (fdiv (int_to_float w) (int_to_float t)))
       (fmul (int_to_float (int y)) (fdiv (int_to_float h) (int_to_float t)))"

definition spec_resample :: "uint8_t list \<Rightarrow> int \<Rightarrow> int \<Rightarrow> int \<Rightarrow> nat \<Rightarrow> nat \<Rightarrow> int" where
  "spec_resample gray w h t x y = truncate_toward_zero (spec_weighted_sum gray w h t x y)"

subsection \<open>Concrete frames and environments\<close>

text \<open>
  A 2x2 frame whose decoded pixels are (37,37,37), (0,0,0), (0,0,0), (255,255,255), with
  an environment in which both allocations and the conversion succeed, and a tensor of
  five elements.
\<close>

definition rgb_2x2 :: "uint8_t list" where
  "rgb_2x2 = [37, 37, 37, 0, 0, 0, 0, 0, 0, 255, 255, 255]"

definition gray_2x2 :: "uint8_t list" where
  "gray_2x2 = [36, 0, 0, 255]"

definition frame_2x2 :: camera_fb_t where
  "frame_2x2 = \<lparr>buf = [255, 216, 255, 217], len = 4, width = 2, height = 2, format = PIXFORMAT_JPEG\<rparr>"

definition env_ok :: env where
  "env_ok = \<lparr>malloc_ok = (\<lambda>b n. True), fmt2rgb888 = (\<lambda>src n f. Some rgb_2x2)\<rparr>"

definition world_2x2 :: world where
  "world_2x2 = \<lparr>fb = Some frame_2x2, output_buffer = Some [0, 0, 0, 0, 0], heap = [],
                 serial = [], stores = []\<rparr>"

text \<open>The same frame in another world: another allocator, a used heap, a used tensor.\<close>

definition env_small_heap :: env where
  "env_small_heap = \<lparr>malloc_ok = (\<lambda>b n. n < 100), fmt2rgb888 = (\<lambda>src n f. Some rgb_2x2)\<rparr>"

definition world_2x2_used :: world where
  "world_2x2_used = \<lparr>fb = Some frame_2x2, output_buffer = Some [1, 2, 3, 4], heap = [(Gray_buf, 7)],
                 serial = [Println ''boot''], stores = [3]\<rparr>"

text \<open>Environments in which one step fails.\<close>

definition env_decode_fails :: env where
  "env_decode_fails = \<lparr>malloc_ok = (\<lambda>b n. True), fmt2rgb888 = (\<lambda>src n f. None)\<rparr>"

definition env_gray_alloc_fails :: env where
  "env_gray_alloc_fails = \<lparr>malloc_ok = (\<lambda>b n. b = Rgb888_buf), fmt2rgb888 = (\<lambda>src n f. Some rgb_2x2)\<rparr>"

text \<open>An allocator that returns null for a request of zero bytes.\<close>

definition env_no_empty_block :: env where
  "env_no_empty_block = \<lparr>malloc_ok = (\<lambda>b n. 0 < n), fmt2rgb888 = (\<lambda>src n f. Some rgb_2x2)\<rparr>"

text \<open>A frame of width and height zero, a null frame pointer and a null output pointer.\<close>

definition frame_0x0 :: camera_fb_t where
  "frame_0x0 = \<lparr>buf = [], len = 0, width = 0, height = 0, format = PIXFORMAT_JPEG\<rparr>"

definition world_0x0 :: world where
  "world_0x0 = \<lparr>fb = Some frame_0x0, output_buffer = Some [0, 0, 0, 0, 0], heap = [],
                 serial = [], stores = []\<rparr>"

definition world_null_fb :: world where
  "world_null_fb = \<lparr>fb = None, output_buffer = Some [0, 0, 0, 0, 0], heap = [],
                 serial = [], stores = []\<rparr>"

definition world_null_output :: world where
  "world_null_output = \<lparr>fb = Some frame_2x2, output_buffer = None, heap = [],
                 serial = [], stores = []\<rparr>"

text \<open>A grayscale buffer of width 3 and height 2.\<close>

definition gray_3x2 :: "uint8_t list" where
  "gray_3x2 = [10, 20, 30, 40, 50, 60]"

text \<open>A grayscale buffer of width 2 and height 2, every sample 255.\<close>

definition gray_255_2x2 :: "uint8_t list" where
  "gray_255_2x2 = [255, 255, 255, 255]"

text \<open>
  A 160x120 grayscale buffer whose top-left 2x2 block is 10, 20 over 30, 40 and whose
  other samples are 0.
\<close>

definition gray_160x120 :: "uint8_t list" where
  "gray_160x120 = [10, 20] @ replicate 158 0 @ [30, 40] @ replicate 19038 0"

text \<open>
  A 160x120 grayscale buffer with 10, 20, 30, 40 at the four points that a 2x2 target
  samples: columns 0 and 80 of rows 0 and 60.
\<close>

definition gray_160x120_grid :: "uint8_t list" where
  "gray_160x120_grid = (replicate 19200 0)[0 := 10, 80 := 20, 9600 := 30, 9680 := 40]"

section \<open>Properties of the binary32 operations\<close>

lemma round_half_even_of_int: "round_half_even (of_int n) = n"
  by (simp add: round_half_even_def)

lemma round_half_even_error: "\<bar>of_int (round_half_even x) - x\<bar> \<le> 1 / 2"
proof -
  have "of_int \<lfloor>x\<rfloor> \<le> x" "x < of_int \<lfloor>x\<rfloor> + 1" by linarith+
  then show ?thesis
    by (auto simp: round_half_even_def Let_def)
qed

lemma round_half_even_nonneg: "0 \<le> x \<Longrightarrow> 0 \<le> round_half_even x"
  by (auto simp: round_half_even_def Let_def intro: add_nonneg_nonneg)

lemma f32_exponent_le:
  assumes "q \<noteq> 0"
  shows "2 powi (f32_exponent q) \<le> \<bar>q\<bar>"
proof -
  obtain a b where ab: "quotient_of q = (a, b)" by (cases "quotient_of q")
  then have b: "0 < b" and q: "q = of_int a / of_int b"
    using quotient_of_denom_pos quotient_of_div by auto
  from assms q have a: "0 < \<bar>a\<bar>" by auto
  define la lb where "la = bitlen \<bar>a\<bar>" and "lb = bitlen b"
  have la: "(2::int) ^ nat (la - 1) \<le> \<bar>a\<bar>" and lb: "b < 2 ^ nat lb"
    using bitlen_bounds[OF a] bitlen_bounds[OF b] by (auto simp: la_def lb_def)
  have la1: "1 \<le> la" using a by (auto simp: la_def bitlen_alt_def)
  have lb0: "0 \<le> lb" by (simp add: lb_def bitlen_nonneg)
  have "(2::rat) powi (la - lb - 1) = 2 powi (la - 1) / 2 powi lb"
    by (simp add: power_int_diff)
  also have "\<dots> = 2 ^ nat (la - 1) / 2 ^ nat lb"
    using la1 lb0 by (simp add: power_int_def)
  also have "\<dots> \<le> of_int \<bar>a\<bar> / of_int b"
  proof (rule frac_le)
    show "(2::rat) ^ nat (la - 1) \<le> of_int \<bar>a\<bar>"
      using la by (metis of_int_le_iff of_int_numeral of_int_power)
    show "(of_int b :: rat) \<le> 2 ^ nat lb"
      using lb by (metis less_imp_le of_int_le_iff of_int_numeral of_int_power)
    show "(0::rat) < of_int b" using b by simp
    show "(0::rat) \<le> of_int \<bar>a\<bar>" by simp
  qed
  also have "\<dots> = \<bar>q\<bar>" using b by (simp add: q abs_divide)
  finally have low: "(2::rat) powi (la - lb - 1) \<le> \<bar>q\<bar>" .
  show ?thesis
    using low by (simp add: f32_exponent_def ab Let_def la_def lb_def)
qed

lemma f32_exponent_gt:
  assumes "q \<noteq> 0"
  shows "\<bar>q\<bar> < 2 powi (f32_exponent q + 1)"
proof -
  obtain a b where ab: "quotient_of q = (a, b)" by (cases "quotient_of q")
  then have b: "0 < b" and q: "q = of_int a / of_int b"
    using quotient_of_denom_pos quotient_of_div by auto
  from assms q have a: "0 < \<bar>a\<bar>" by auto
  define la lb where "la = bitlen \<bar>a\<bar>" and "lb = bitlen b"
  have la: "\<bar>a\<bar> < 2 ^ nat la" and lb: "(2::int) ^ nat (lb - 1) \<le> b"
    using bitlen_bounds[OF a] bitlen_bounds[OF b] by (auto simp: la_def lb_def)
  have la0: "0 \<le> la" by (simp add: la_def bitlen_nonneg)
  have lb1: "1 \<le> lb" using b by (auto simp: lb_def bitlen_alt_def)
  have "\<bar>q\<bar> = of_int \<bar>a\<bar> / of_int b" using b by (simp add: q)
  also have "\<dots> < 2 ^ nat la / 2 ^ nat (lb - 1)"
  proof (rule frac_less)
    show "(0::rat) \<le> of_int \<bar>a\<bar>" by simp
    show "(of_int \<bar>a\<bar> :: rat) < 2 ^ nat la"
      using la by (metis of_int_less_iff of_int_numeral of_int_power)
    show "(0::rat) < 2 ^ nat (lb - 1)" by simp
    show "(2::rat) ^ nat (lb - 1) \<le> of_int b"
      using lb by (metis of_int_le_iff of_int_numeral of_int_power)
  qed
  also have "\<dots> = 2 powi la / 2 powi (lb - 1)"
    using la0 lb1 by (simp add: power_int_def)
  also have "\<dots> = 2 powi (la - (lb - 1))"
    by (rule power_int_diff[symmetric]) simp
  also have "la - (lb - 1) = la - lb + 1" by simp
  finally have up: "\<bar>q\<bar> < 2 powi (la - lb + 1)" .
  show ?thesis
    using up by (auto simp: f32_exponent_def ab Let_def la_def lb_def not_le)
qed

lemma f32_round_0: "f32_round 0 = 0"
  by (simp add: f32_round_def)

lemma f32_round_nonneg: "0 \<le> q \<Longrightarrow> 0 \<le> f32_round q"
  by (auto simp: f32_round_def Let_def intro!: mult_nonneg_nonneg round_half_even_nonneg divide_nonneg_nonneg)

lemma f32_round_error:
  assumes "\<bar>q\<bar> \<le> 2 powi k" and "- 126 \<le> k"
  shows "\<bar>f32_round q - q\<bar> \<le> 2 powi (k - 24)"
proof (cases "q = 0")
  case True
  then show ?thesis by (simp add: f32_round_def)
next
  case False
  define e where "e = max (f32_exponent q) (- 126)"
  define ulp :: rat where "ulp = 2 powi (e - 23)"
  have ulp: "0 < ulp" by (simp add: ulp_def)
  have "(2::rat) powi (f32_exponent q) \<le> 2 powi k"
    using f32_exponent_le[OF False] assms(1) by linarith
  then have "f32_exponent q \<le> k"
    using power_int_strict_increasing[of k "f32_exponent q" "2::rat"] by fastforce
  then have "e \<le> k" using assms(2) by (simp add: e_def)
  then have u: "ulp \<le> 2 powi (k - 23)"
    by (simp add: ulp_def power_int_increasing)
  have r: "f32_round q = of_int (round_half_even (q / ulp)) * ulp"
    using False by (simp add: f32_round_def Let_def e_def ulp_def)
  have "f32_round q - q = (of_int (round_half_even (q / ulp)) - q / ulp) * ulp"
    using ulp by (simp add: r field_simps)
  then have "\<bar>f32_round q - q\<bar> = \<bar>of_int (round_half_even (q / ulp)) - q / ulp\<bar> * ulp"
    using ulp by (simp add: abs_mult)
  also have "\<dots> \<le> (1 / 2) * ulp"
    using round_half_even_error[of "q / ulp"] ulp by (intro mult_right_mono) auto
  also have "\<dots> \<le> (1 / 2) * 2 powi (k - 23)"
    using u by simp
  also have "\<dots> = 2 powi (k - 24)"
    by (simp add: power_int_diff)
  finally show ?thesis .
qed

lemma f32_round_of_int:
  assumes "\<bar>m\<bar> < 2 ^ 24"
  shows "f32_round (of_int m) = of_int m"
proof (cases "m = 0")
  case True
  then show ?thesis by (simp add: f32_round_def)
next
  case False
  define q :: rat where "q = of_int m"
  define e where "e = max (f32_exponent q) (- 126)"
  have q0: "q \<noteq> 0" using False by (simp add: q_def)
  have "\<bar>q\<bar> < 2 ^ 24"
    using assms unfolding q_def
    by (metis of_int_abs of_int_less_iff of_int_numeral of_int_power)
  then have "(2::rat) powi (f32_exponent q) < 2 powi 24"
    using f32_exponent_le[OF q0] by simp
  then have "f32_exponent q < 24"
    using power_int_increasing[of 24 "f32_exponent q" "2::rat"] by fastforce
  then have e: "e \<le> 23" by (simp add: e_def)
  define n where "n = nat (23 - e)"
  have ulp: "(2::rat) powi (e - 23) = 1 / 2 ^ n"
    using e by (simp add: power_int_def n_def inverse_eq_divide power_one_over)
  have "q / (2 powi (e - 23)) = of_int (m * 2 ^ n)"
    by (simp add: ulp q_def)
  then have "round_half_even (q / (2 powi (e - 23))) = m * 2 ^ n"
    by (simp only: round_half_even_of_int)
  then have "f32_round q = of_int (m * 2 ^ n) * (1 / 2 ^ n)"
    using q0 by (simp add: f32_round_def Let_def e_def[symmetric] ulp)
  then show ?thesis by (simp add: q_def)
qed

lemma c299: "f32_round (299 / 1000) = 10032775 / 33554432"
  by code_simp
lemma c587: "f32_round (587 / 1000) = 4924113 / 8388608"
  by code_simp
lemma c114: "f32_round (114 / 1000) = 15300821 / 134217728"
  by code_simp

lemma uint8_range: "0 \<le> uint (p :: uint8_t) \<and> uint p \<le> 255"
  using uint_lt2p[of p] by simp

lemma uint8_rat_range:
  "0 \<le> (of_int (uint (p :: uint8_t)) :: rat) \<and> (of_int (uint p) :: rat) \<le> 255"
  using uint8_range[of p] by (metis of_int_0_le_iff of_int_le_iff of_int_numeral)

lemma int_to_float_uint8 [simp]: "int_to_float (uint (p :: uint8_t)) = of_int (uint p)"
  unfolding int_to_float_def using uint8_range[of p] by (intro f32_round_of_int) simp

lemma f32_round_error_256: "\<bar>q\<bar> \<le> 256 \<Longrightarrow> \<bar>f32_round q - q\<bar> \<le> 1 / 65536"
  using f32_round_error[of q 8] by simp

lemma luma_bounds:
  fixes r g b :: uint8_t
  defines "e \<equiv> (299 * of_int (uint r) + 587 * of_int (uint g) + 114 * of_int (uint b)) / (1000 :: rat)"
  shows "0 \<le> luma r g b \<and> luma r g b < 256 \<and> \<bar>luma r g b - e\<bar> \<le> 1 / 8192"
proof -
  define R G B :: rat where "R = of_int (uint r)" and "G = of_int (uint g)" and "B = of_int (uint b)"
  have R: "0 \<le> R" "R \<le> 255" and G: "0 \<le> G" "G \<le> 255" and B: "0 \<le> B" "B \<le> 255"
    using uint8_rat_range[of r] uint8_rat_range[of g] uint8_rat_range[of b]
    by (simp_all add: R_def G_def B_def)
  define a1 a2 a3 where "a1 = f32_round (10032775 / 33554432 * R)"
    and "a2 = f32_round (4924113 / 8388608 * G)"
    and "a3 = f32_round (15300821 / 134217728 * B)"
  define s1 where "s1 = f32_round (a1 + a2)"
  define s where "s = f32_round (s1 + a3)"
  have l: "luma r g b = s"
    unfolding luma_def fadd_def fmul_def c299 c587 c114 s_def s1_def a1_def a2_def a3_def R_def G_def B_def
    by simp
  have e1: "\<bar>a1 - 10032775 / 33554432 * R\<bar> \<le> 1 / 65536"
    unfolding a1_def using R by (intro f32_round_error_256) (simp add: abs_mult)
  have e2: "\<bar>a2 - 4924113 / 8388608 * G\<bar> \<le> 1 / 65536"
    unfolding a2_def using G by (intro f32_round_error_256) (simp add: abs_mult)
  have e3: "\<bar>a3 - 15300821 / 134217728 * B\<bar> \<le> 1 / 65536"
    unfolding a3_def using B by (intro f32_round_error_256) (simp add: abs_mult)
  have n1: "0 \<le> a1" "0 \<le> a2" "0 \<le> a3"
    unfolding a1_def a2_def a3_def using R G B by (simp_all add: f32_round_nonneg)
  have e4: "\<bar>s1 - (a1 + a2)\<bar> \<le> 1 / 65536"
    unfolding s1_def using e1 e2 n1 R G by (intro f32_round_error_256) linarith
  have n2: "0 \<le> s1" unfolding s1_def using n1 by (simp add: f32_round_nonneg)
  have e5: "\<bar>s - (s1 + a3)\<bar> \<le> 1 / 65536"
    unfolding s_def using e1 e2 e3 e4 n1 n2 R G B by (intro f32_round_error_256) linarith
  have n3: "0 \<le> s" unfolding s_def using n1 n2 by (simp add: f32_round_nonneg)
  have d: "\<bar>s - (10032775 / 33554432 * R + 4924113 / 8388608 * G + 15300821 / 134217728 * B)\<bar>
      \<le> 5 / 65536"
    using e1 e2 e3 e4 e5 unfolding abs_le_iff by linarith
  have "(10032775 / 33554432 * R + 4924113 / 8388608 * G + 15300821 / 134217728 * B)
      - (299 * R + 587 * G + 114 * B) / 1000
      = 13 / 1048576000 * G + 1 / 16777216000 * B - 21 / 4194304000 * R"
    by (simp add: field_simps)
  then have c: "\<bar>(10032775 / 33554432 * R + 4924113 / 8388608 * G + 15300821 / 134217728 * B)
      - (299 * R + 587 * G + 114 * B) / 1000\<bar> \<le> 1 / 65536"
    using R G B unfolding abs_le_iff by linarith
  have "s < 256" using d R G B unfolding abs_le_iff by linarith
  moreover have "\<bar>s - (299 * R + 587 * G + 114 * B) / 1000\<bar> \<le> 1 / 8192"
    using d c unfolding abs_le_iff by linarith
  ultimately show ?thesis using n3 by (simp add: l e_def R_def G_def B_def)
qed

text \<open>
  The binary32 numbers are the rationals \<open>m * 2 powi k\<close> with \<open>\<bar>m\<bar> \<le> 2 ^ 24\<close> and
  \<open>- 149 \<le> k\<close>: rounding leaves them unchanged, and every rounded number is one.
\<close>

lemma f32_round_exact:
  assumes m: "\<bar>m\<bar> \<le> 2 ^ 24" and k: "- 149 \<le> k"
  shows "f32_round (of_int m * 2 powi k) = of_int m * 2 powi k"
proof (cases "m = 0")
  case True
  then show ?thesis by (simp add: f32_round_def)
next
  case False
  define q :: rat where "q = of_int m * 2 powi k"
  define e where "e = max (f32_exponent q) (- 126)"
  have q0: "q \<noteq> 0" using False by (simp add: q_def)
  have mq: "\<bar>of_int m :: rat\<bar> \<le> 2 ^ 24"
    using m by (metis of_int_abs of_int_le_iff of_int_numeral of_int_power)
  have "\<bar>q\<bar> = \<bar>of_int m\<bar> * 2 powi k" by (simp add: q_def abs_mult)
  also have "\<dots> \<le> 2 ^ 24 * 2 powi k" using mq by (intro mult_right_mono) simp_all
  also have "\<dots> = 2 powi (24 + k)" by (simp add: power_int_add)
  finally have "(2::rat) powi (f32_exponent q) \<le> 2 powi (24 + k)"
    using f32_exponent_le[OF q0] by linarith
  then have ex: "f32_exponent q \<le> 24 + k"
    using power_int_strict_increasing[of "24 + k" "f32_exponent q" "2::rat"] by fastforce
  have "\<exists>n::int. q / 2 powi (e - 23) = of_int n"
  proof (cases "e - 23 \<le> k")
    case True
    define d where "d = nat (k - (e - 23))"
    have "q / 2 powi (e - 23) = of_int m * 2 powi (k - (e - 23))"
      by (simp add: q_def power_int_diff)
    also have "\<dots> = of_int m * 2 ^ d" using True by (simp add: d_def power_int_def)
    also have "\<dots> = of_int (m * 2 ^ d)" by simp
    finally show ?thesis by blast
  next
    case False
    then have e: "e = 24 + k" using ex k by (simp add: e_def max_def split: if_splits)
    then have fe: "f32_exponent q = 24 + k" using k False by (simp add: e_def max_def split: if_splits)
    have "(2::rat) powi (24 + k) \<le> \<bar>q\<bar>" using f32_exponent_le[OF q0] by (simp add: fe)
    then have "(2::rat) ^ 24 * 2 powi k \<le> \<bar>of_int m\<bar> * 2 powi k"
      by (simp add: power_int_add q_def abs_mult)
    then have "(2::rat) ^ 24 \<le> \<bar>of_int m\<bar>" by simp
    with mq have "\<bar>of_int m :: rat\<bar> = 2 ^ 24" by linarith
    then have "\<bar>m\<bar> = 2 ^ 24"
      by (metis of_int_abs of_int_eq_iff of_int_numeral of_int_power)
    then have "m = 16777216 \<or> m = - 16777216" by (simp add: abs_if split: if_splits)
    then have "m = 2 * (m div 2)" by auto
    then have m2: "(of_int m :: rat) = 2 * of_int (m div 2)"
      by (metis of_int_mult of_int_numeral)
    have "q / 2 powi (e - 23) = of_int m * 2 powi k / 2 powi (k + 1)"
      by (simp add: q_def e add.commute)
    also have "\<dots> = of_int m / 2" by (simp add: power_int_add)
    also have "\<dots> = of_int (m div 2)" using m2 by simp
    finally show ?thesis by blast
  qed
  then obtain n :: int where n: "q / 2 powi (e - 23) = of_int n" by blast
  have "f32_round q = of_int (round_half_even (q / 2 powi (e - 23))) * 2 powi (e - 23)"
    using q0 by (simp add: f32_round_def Let_def e_def)
  also have "\<dots> = of_int n * 2 powi (e - 23)"
    by (simp only: n round_half_even_of_int)
  also have "\<dots> = q" using n by (simp add: field_simps)
  finally show ?thesis by (simp add: q_def)
qed

lemma round_half_even_bound:
  assumes "\<bar>x\<bar> < of_int b"
  shows "\<bar>round_half_even x\<bar> \<le> b"
proof -
  have "\<bar>of_int (round_half_even x) - x\<bar> \<le> 1 / 2" by (rule round_half_even_error)
  with assms have "\<bar>of_int (round_half_even x) :: rat\<bar> < of_int b + 1"
    unfolding abs_le_iff abs_less_iff by linarith
  then have "\<bar>of_int (round_half_even x) :: rat\<bar> < of_int (b + 1)" by simp
  then have "\<bar>round_half_even x\<bar> < b + 1"
    by (metis of_int_abs of_int_less_iff)
  then show ?thesis by simp
qed

lemma f32_round_form:
  assumes "q \<noteq> 0"
  shows "\<exists>m k. f32_round q = of_int m * 2 powi k \<and> \<bar>m\<bar> \<le> 2 ^ 24 \<and> - 149 \<le> k"
proof -
  define e where "e = max (f32_exponent q) (- 126)"
  define ulp :: rat where "ulp = 2 powi (e - 23)"
  have ulp: "0 < ulp" by (simp add: ulp_def)
  have r: "f32_round q = of_int (round_half_even (q / ulp)) * 2 powi (e - 23)"
    using assms by (simp add: f32_round_def Let_def e_def ulp_def)
  have "\<bar>q\<bar> < 2 powi (f32_exponent q + 1)" by (rule f32_exponent_gt[OF assms])
  also have "\<dots> \<le> 2 powi (e + 1)" by (intro power_int_increasing) (simp_all add: e_def)
  finally have "\<bar>q\<bar> / ulp < 2 powi (e + 1) / ulp" using ulp by (simp add: divide_strict_right_mono)
  also have "2 powi (e + 1) / ulp = 2 powi ((e + 1) - (e - 23))"
    unfolding ulp_def by (rule power_int_diff[symmetric]) simp
  also have "\<dots> = of_int (2 ^ 24)" by simp
  finally have "\<bar>q / ulp\<bar> < of_int (2 ^ 24)" using ulp by (simp add: abs_divide)
  then have "\<bar>round_half_even (q / ulp)\<bar> \<le> 2 ^ 24" by (rule round_half_even_bound)
  moreover have "- 149 \<le> e - 23" by (simp add: e_def)
  ultimately show ?thesis using r by blast
qed

lemma f32_round_idem: "f32_round (f32_round q) = f32_round q"
proof (cases "q = 0")
  case True
  then show ?thesis by (simp add: f32_round_0)
next
  case False
  from f32_round_form[OF False] obtain m k where
    "f32_round q = of_int m * 2 powi k" "\<bar>m\<bar> \<le> 2 ^ 24" "- 149 \<le> k" by blast
  then show ?thesis by (simp add: f32_round_exact)
qed

text \<open>The integer part of a non-negative binary32 value is a binary32 value.\<close>

lemma f32_round_floor:
  assumes "0 \<le> f32_round q"
  shows "f32_round (of_int \<lfloor>f32_round q\<rfloor>) = of_int \<lfloor>f32_round q\<rfloor>"
proof (cases "q = 0")
  case True
  then show ?thesis by (simp add: f32_round_0)
next
  case False
  from f32_round_form[OF False] obtain m k where
    f: "f32_round q = of_int m * 2 powi k" and m: "\<bar>m\<bar> \<le> 2 ^ 24" and k: "- 149 \<le> k" by blast
  show ?thesis
  proof (cases "0 \<le> k")
    case True
    have "f32_round q = of_int (m * 2 ^ nat k)" using True by (simp add: f power_int_def)
    then have "of_int \<lfloor>f32_round q\<rfloor> = f32_round q" by (simp only: floor_of_int)
    then show ?thesis by (metis f32_round_idem)
  next
    case False
    then have "(2::rat) powi k \<le> 2 powi (- 1)" by (intro power_int_increasing) simp_all
    then have k2: "(2::rat) powi k \<le> 1 / 2" by simp
    have mq: "\<bar>of_int m :: rat\<bar> \<le> 2 ^ 24"
      using m by (metis of_int_abs of_int_le_iff of_int_numeral of_int_power)
    have "\<bar>f32_round q\<bar> = \<bar>of_int m\<bar> * 2 powi k" by (simp add: f abs_mult)
    also have "\<dots> \<le> 2 ^ 24 * (1 / 2)" using mq k2 by (intro mult_mono) simp_all
    finally have "f32_round q \<le> 2 ^ 23" by simp
    then have "\<lfloor>f32_round q\<rfloor> \<le> 2 ^ 23" by (simp add: floor_le_iff)
    moreover have "0 \<le> \<lfloor>f32_round q\<rfloor>" using assms by simp
    ultimately show ?thesis by (intro f32_round_of_int) simp
  qed
qed

text \<open>Subtracting its integer part from a non-negative binary32 number is exact.\<close>

lemma fsub_floor_exact:
  assumes "0 \<le> f32_round q"
  shows "fsub (f32_round q) (int_to_float \<lfloor>f32_round q\<rfloor>) = f32_round q - of_int \<lfloor>f32_round q\<rfloor>"
proof -
  define s where "s = f32_round q"
  define n where "n = \<lfloor>s\<rfloor>"
  have s0: "0 \<le> s" using assms by (simp add: s_def)
  have n0: "0 \<le> n" using s0 by (simp add: n_def)
  have fl: "int_to_float n = of_int n"
    unfolding int_to_float_def n_def s_def by (rule f32_round_floor[OF assms])
  have fr: "0 \<le> s - of_int n" "s - of_int n < 1" unfolding n_def by linarith+
  have "f32_round (s - of_int n) = s - of_int n"
  proof (cases "q = 0")
    case True
    then show ?thesis by (simp add: s_def n_def f32_round_0)
  next
    case False
    from f32_round_form[OF False] obtain m k where
      f: "s = of_int m * 2 powi k" and m: "\<bar>m\<bar> \<le> 2 ^ 24" and k: "- 149 \<le> k"
      unfolding s_def by blast
    show ?thesis
    proof (cases "0 \<le> k")
      case True
      have "s = of_int (m * 2 ^ nat k)" using True by (simp add: f power_int_def)
      then have "of_int n = s" unfolding n_def by (simp only: floor_of_int)
      then show ?thesis by (simp add: f32_round_0)
    next
      case False
      define d where "d = nat (- k)"
      have p: "(2::rat) ^ d * 2 powi k = 1" using False by (simp add: d_def power_int_def power_mult_distrib[symmetric])
      define m' where "m' = m - n * 2 ^ d"
      have "(of_int m' :: rat) * 2 powi k = of_int m * 2 powi k - of_int n * (2 ^ d * 2 powi k)"
        by (simp add: m'_def algebra_simps)
      then have e: "s - of_int n = of_int m' * 2 powi k" by (simp add: p f)
      have "0 \<le> of_int m' * (2::rat) powi k" using fr(1) e by simp
      moreover have "0 < (2::rat) powi k" by simp
      ultimately have "0 \<le> (of_int m' :: rat)" by (simp only: zero_le_mult_iff) linarith
      then have m0: "0 \<le> m'" by simp
      have "0 \<le> n * 2 ^ d" using n0 by simp
      then have "m' \<le> m" by (simp add: m'_def)
      with m m0 have "\<bar>m'\<bar> \<le> 2 ^ 24" by simp
      then show ?thesis unfolding e using k by (rule f32_round_exact)
    qed
  qed
  then show ?thesis using fl by (simp add: fsub_def s_def n_def)
qed

text \<open>
  The rounding error of one term \<open>(p * wx) * wy\<close> of lines 31-34 and of the sum of the
  four terms, for samples between 0 and 255 and offsets in \<open>[0, 1)\<close>.
\<close>

lemma fmul_term_error:
  fixes P wx WX wy WY :: rat
  assumes P: "0 \<le> P" "P \<le> 255"
    and wx: "0 \<le> wx" "\<bar>wx - WX\<bar> \<le> 1 / 16777216" "0 \<le> WX" "WX \<le> 1"
    and wy: "0 \<le> wy" "\<bar>wy - WY\<bar> \<le> 1 / 16777216" "0 \<le> WY" "WY \<le> 1"
  shows "0 \<le> fmul (fmul P wx) wy"
    and "fmul (fmul P wx) wy \<le> 255 + 1 / 8192"
    and "\<bar>fmul (fmul P wx) wy - P * (WX * WY)\<bar> \<le> 1 / 8192"
proof -
  define X where "X = P * WX"
  define t where "t = f32_round (P * wx)"
  define T where "T = f32_round (t * wy)"
  have T: "fmul (fmul P wx) wy = T" by (simp add: T_def t_def fmul_def)
  have X0: "0 \<le> X" using P wx by (simp add: X_def)
  have "P * WX \<le> 255 * 1" using P wx by (intro mult_mono) simp_all
  then have X1: "X \<le> 255" by (simp add: X_def)
  have "X * WY \<le> 255 * 1" using X0 X1 wy by (intro mult_mono) simp_all
  then have Y1: "P * (WX * WY) \<le> 255" by (simp add: X_def mult.assoc)
  have wxu: "wx \<le> 1 + 1 / 16777216" using wx unfolding abs_le_iff by linarith
  have wyu: "wy \<le> 1 + 1 / 16777216" using wy unfolding abs_le_iff by linarith
  have pw0: "0 \<le> P * wx" using P wx by simp
  have pw: "P * wx \<le> 255 * (1 + 1 / 16777216)" using P wx wxu by (intro mult_mono) simp_all
  have e1: "\<bar>t - P * wx\<bar> \<le> 1 / 65536"
    unfolding t_def using pw pw0 by (intro f32_round_error_256) simp
  have "\<bar>P * (wx - WX)\<bar> \<le> 255 * (1 / 16777216)"
    unfolding abs_mult using P wx by (intro mult_mono) simp_all
  then have d1: "\<bar>P * wx - X\<bar> \<le> 255 / 16777216" by (simp add: X_def algebra_simps)
  have t0: "0 \<le> t" unfolding t_def using pw0 by (rule f32_round_nonneg)
  have tX: "\<bar>t - X\<bar> \<le> 1 / 32768" using e1 d1 unfolding abs_le_iff by linarith
  have tu: "t \<le> 255 + 1 / 32768" using tX X1 unfolding abs_le_iff by linarith
  have tw0: "0 \<le> t * wy" using t0 wy by simp
  have tw: "t * wy \<le> (255 + 1 / 32768) * (1 + 1 / 16777216)"
    using t0 tu wy wyu by (intro mult_mono) simp_all
  have e2: "\<bar>T - t * wy\<bar> \<le> 1 / 65536"
    unfolding T_def using tw tw0 by (intro f32_round_error_256) simp
  have T0: "0 \<le> T" unfolding T_def using tw0 by (rule f32_round_nonneg)
  have id: "t * wy - P * (WX * WY) = (t - X) * wy + X * (wy - WY)"
    by (simp add: X_def algebra_simps)
  have a: "\<bar>(t - X) * wy\<bar> \<le> 1 / 32768 * (1 + 1 / 16777216)"
    unfolding abs_mult using tX wy wyu by (intro mult_mono) simp_all
  have b: "\<bar>X * (wy - WY)\<bar> \<le> 255 * (1 / 16777216)"
    unfolding abs_mult using X0 X1 wy by (intro mult_mono) simp_all
  have "\<bar>t * wy - P * (WX * WY)\<bar> \<le> 1 / 32768 * (1 + 1 / 16777216) + 255 * (1 / 16777216)"
    unfolding id by (rule order_trans[OF abs_triangle_ineq add_mono[OF a b]])
  then have c: "\<bar>t * wy - P * (WX * WY)\<bar> \<le> 3 / 65536" by simp
  have d: "\<bar>T - P * (WX * WY)\<bar> \<le> 1 / 8192" using e2 c unfolding abs_le_iff by linarith
  show "0 \<le> fmul (fmul P wx) wy" using T0 by (simp add: T)
  show "\<bar>fmul (fmul P wx) wy - P * (WX * WY)\<bar> \<le> 1 / 8192" using d by (simp add: T)
  show "fmul (fmul P wx) wy \<le> 255 + 1 / 8192" using d Y1 unfolding T abs_le_iff by linarith
qed

lemma weighted_sum_error:
  fixes P1 P2 P3 P4 dx dy :: rat
  assumes P: "0 \<le> P1" "P1 \<le> 255" "0 \<le> P2" "P2 \<le> 255" "0 \<le> P3" "P3 \<le> 255"
      "0 \<le> P4" "P4 \<le> 255"
    and d: "0 \<le> dx" "dx < 1" "0 \<le> dy" "dy < 1"
  defines "v \<equiv> fadd (fadd (fadd
              (fmul (fmul P1 (fsub 1 dx)) (fsub 1 dy))
              (fmul (fmul P2 dx) (fsub 1 dy)))
              (fmul (fmul P3 (fsub 1 dx)) dy))
              (fmul (fmul P4 dx) dy)"
  shows "0 \<le> v"
    and "\<bar>v - (P1 * ((1 - dx) * (1 - dy)) + P2 * (dx * (1 - dy)) + P3 * ((1 - dx) * dy)
              + P4 * (dx * dy))\<bar> \<le> 1 / 1024"
proof -
  define mx my where "mx = fsub 1 dx" and "my = fsub 1 dy"
  have mx0: "0 \<le> mx" and my0: "0 \<le> my"
    unfolding mx_def my_def fsub_def using d by (simp_all add: f32_round_nonneg)
  have "\<bar>f32_round (1 - dx) - (1 - dx)\<bar> \<le> 2 powi (0 - 24)"
    using d by (intro f32_round_error) simp_all
  then have mx: "\<bar>mx - (1 - dx)\<bar> \<le> 1 / 16777216" by (simp add: mx_def fsub_def)
  have "\<bar>f32_round (1 - dy) - (1 - dy)\<bar> \<le> 2 powi (0 - 24)"
    using d by (intro f32_round_error) simp_all
  then have my: "\<bar>my - (1 - dy)\<bar> \<le> 1 / 16777216" by (simp add: my_def fsub_def)
  have ex: "\<bar>dx - dx\<bar> \<le> 1 / 16777216" "\<bar>dy - dy\<bar> \<le> 1 / 16777216" by simp_all
  have r: "0 \<le> 1 - dx" "1 - dx \<le> 1" "0 \<le> 1 - dy" "1 - dy \<le> 1" "dx \<le> 1" "dy \<le> 1"
    using d by simp_all
  define T1 T2 T3 T4 where "T1 = fmul (fmul P1 mx) my" and "T2 = fmul (fmul P2 dx) my"
    and "T3 = fmul (fmul P3 mx) dy" and "T4 = fmul (fmul P4 dx) dy"
  note t1 = fmul_term_error[OF P(1,2) mx0 mx r(1,2) my0 my r(3,4), folded T1_def]
  note t2 = fmul_term_error[OF P(3,4) d(1) ex(1) d(1) r(5) my0 my r(3,4), folded T2_def]
  note t3 = fmul_term_error[OF P(5,6) mx0 mx r(1,2) d(3) ex(2) d(3) r(6), folded T3_def]
  note t4 = fmul_term_error[OF P(7,8) d(1) ex(1) d(1) r(5) d(3) ex(2) d(3) r(6), folded T4_def]
  define s1 s2 where "s1 = f32_round (T1 + T2)" and "s2 = f32_round (s1 + T3)"
  have v: "v = f32_round (s2 + T4)"
    by (simp add: v_def fadd_def s1_def s2_def T1_def T2_def T3_def T4_def mx_def my_def)
  have "\<bar>f32_round (T1 + T2) - (T1 + T2)\<bar> \<le> 2 powi (9 - 24)"
    using t1(1,2) t2(1,2) by (intro f32_round_error) simp_all
  then have e1: "\<bar>s1 - (T1 + T2)\<bar> \<le> 1 / 32768" by (simp add: s1_def)
  have s10: "0 \<le> s1" unfolding s1_def using t1(1) t2(1) by (simp add: f32_round_nonneg)
  have s1u: "s1 \<le> 511" using e1 t1(2) t2(2) unfolding abs_le_iff by linarith
  have "\<bar>f32_round (s1 + T3) - (s1 + T3)\<bar> \<le> 2 powi (10 - 24)"
    using s10 s1u t3(1,2) by (intro f32_round_error) simp_all
  then have e2: "\<bar>s2 - (s1 + T3)\<bar> \<le> 1 / 16384" by (simp add: s2_def)
  have s20: "0 \<le> s2" unfolding s2_def using s10 t3(1) by (simp add: f32_round_nonneg)
  have s2u: "s2 \<le> 767" using e1 e2 t1(2) t2(2) t3(2) unfolding abs_le_iff by linarith
  have "\<bar>f32_round (s2 + T4) - (s2 + T4)\<bar> \<le> 2 powi (10 - 24)"
    using s20 s2u t4(1,2) by (intro f32_round_error) simp_all
  then have e3: "\<bar>v - (s2 + T4)\<bar> \<le> 1 / 16384" by (simp add: v)
  show "0 \<le> v" unfolding v using s20 t4(1) by (simp add: f32_round_nonneg)
  show "\<bar>v - (P1 * ((1 - dx) * (1 - dy)) + P2 * (dx * (1 - dy)) + P3 * ((1 - dx) * dy)
              + P4 * (dx * dy))\<bar> \<le> 1 / 1024"
    using e1 e2 e3 t1(3) t2(3) t3(3) t4(3) unfolding abs_le_iff by linarith
qed

section \<open>The loops\<close>

lemma bind_e_Inr_iff: "bind_e m f = Inr r \<longleftrightarrow> (\<exists>v. m = Inr v \<and> f v = Inr r)"
  by (cases m) auto

lemma store_output_Inr:
  "store_output i v (out, tr) = Inr s' \<longleftrightarrow>
     0 \<le> i \<and> i < int (length out) \<and> s' = (out[nat i := v], tr @ [nat i])"
  by (auto simp: store_output_def)

lemma resize_row_char:
  assumes "resize_row g w h t xr yr y xs (out, tr) = Inr (out', tr')"
  shows "length out' = length out
       \<and> tr' = tr @ map (idx t y) xs
       \<and> (\<forall>x \<in> set xs. 0 \<le> int y * t + int x \<and> idx t y x < length out
             \<and> (\<exists>p. sample g w h xr yr x y = Inr p))
       \<and> (\<forall>j. j \<notin> idx t y ` set xs \<longrightarrow> out' ! j = out ! j)
       \<and> (distinct (map (idx t y) xs) \<longrightarrow>
            (\<forall>x \<in> set xs. \<forall>p. sample g w h xr yr x y = Inr p \<longrightarrow> out' ! idx t y x = quantize p))"
  using assms
proof (induction xs arbitrary: out tr)
  case Nil
  then show ?case by simp
next
  case (Cons x xs)
  from Cons.prems obtain p where p: "sample g w h xr yr x y = Inr p"
    and r: "0 \<le> int y * t + int x" "int y * t + int x < int (length out)"
    and rest: "resize_row g w h t xr yr y xs (out[idx t y x := quantize p], tr @ [idx t y x]) = Inr (out', tr')"
    by (auto simp: bind_e_Inr_iff store_output_Inr idx_def)
  note IH = Cons.IH[OF rest]
  have i: "idx t y x < length out" using r by (simp add: idx_def)
  show ?case
  proof (intro conjI)
    show "length out' = length out" using IH by simp
    show "tr' = tr @ map (idx t y) (x # xs)" using IH by simp
    show "\<forall>x\<in>set (x # xs). 0 \<le> int y * t + int x \<and> idx t y x < length out
             \<and> (\<exists>p. sample g w h xr yr x y = Inr p)"
      using IH p r i by auto
    show "\<forall>j. j \<notin> idx t y ` set (x # xs) \<longrightarrow> out' ! j = out ! j"
      using IH by auto
    show "distinct (map (idx t y) (x # xs)) \<longrightarrow>
            (\<forall>x \<in> set (x # xs). \<forall>p. sample g w h xr yr x y = Inr p \<longrightarrow> out' ! idx t y x = quantize p)"
    proof (intro impI ballI allI)
      fix x' p'
      assume d: "distinct (map (idx t y) (x # xs))" and x': "x' \<in> set (x # xs)"
        and p': "sample g w h xr yr x' y = Inr p'"
      show "out' ! idx t y x' = quantize p'"
      proof (cases "x' \<in> set xs")
        case True
        then show ?thesis using IH d p' by auto
      next
        case False
        then have [simp]: "x' = x" using x' by simp
        have "idx t y x \<notin> idx t y ` set xs" using d by auto
        then have "out' ! idx t y x = (out[idx t y x := quantize p]) ! idx t y x" using IH by blast
        then show ?thesis using i p p' by simp
      qed
    qed
  qed
qed

lemma resize_rows_char:
  assumes "resize_rows g w h t xr yr ys (out, tr) = Inr (out', tr')"
  shows "length out' = length out
       \<and> tr' = tr @ concat (map (\<lambda>y. map (idx t y) [0..<nat t]) ys)
       \<and> (\<forall>y \<in> set ys. \<forall>x < nat t. 0 \<le> int y * t + int x \<and> idx t y x < length out
             \<and> (\<exists>p. sample g w h xr yr x y = Inr p))
       \<and> (\<forall>j. j \<notin> (\<Union>y \<in> set ys. idx t y ` {0..<nat t}) \<longrightarrow> out' ! j = out ! j)
       \<and> (distinct (concat (map (\<lambda>y. map (idx t y) [0..<nat t]) ys)) \<longrightarrow>
            (\<forall>y \<in> set ys. \<forall>x < nat t. \<forall>p. sample g w h xr yr x y = Inr p
                \<longrightarrow> out' ! idx t y x = quantize p))"
  using assms
proof (induction ys arbitrary: out tr)
  case Nil
  then show ?case by simp
next
  case (Cons y ys)
  from Cons.prems obtain out1 tr1 where
    row: "resize_row g w h t xr yr y [0..<nat t] (out, tr) = Inr (out1, tr1)"
    and rest: "resize_rows g w h t xr yr ys (out1, tr1) = Inr (out', tr')"
    by (auto simp: bind_e_Inr_iff)
  note R = resize_row_char[OF row]
  note IH = Cons.IH[OF rest]
  have len1: "length out1 = length out" using R by simp
  show ?case
  proof (intro conjI)
    show "length out' = length out" using IH R by simp
    show "tr' = tr @ concat (map (\<lambda>y. map (idx t y) [0..<nat t]) (y # ys))"
      using IH R by simp
    show "\<forall>y\<in>set (y # ys). \<forall>x<nat t. 0 \<le> int y * t + int x \<and> idx t y x < length out
             \<and> (\<exists>p. sample g w h xr yr x y = Inr p)"
      using IH R len1 by auto
    show "\<forall>j. j \<notin> (\<Union>y\<in>set (y # ys). idx t y ` {0..<nat t}) \<longrightarrow> out' ! j = out ! j"
    proof (intro allI impI)
      fix j assume j: "j \<notin> (\<Union>y\<in>set (y # ys). idx t y ` {0..<nat t})"
      then have "out' ! j = out1 ! j" using IH by auto
      moreover have "out1 ! j = out ! j" using R j by auto
      ultimately show "out' ! j = out ! j" by simp
    qed
    show "distinct (concat (map (\<lambda>y. map (idx t y) [0..<nat t]) (y # ys))) \<longrightarrow>
            (\<forall>y \<in> set (y # ys). \<forall>x < nat t. \<forall>p. sample g w h xr yr x y = Inr p
                \<longrightarrow> out' ! idx t y x = quantize p)"
    proof (intro impI ballI allI)
      fix y' x p
      assume d: "distinct (concat (map (\<lambda>y. map (idx t y) [0..<nat t]) (y # ys)))"
        and y': "y' \<in> set (y # ys)" and x: "x < nat t"
        and p: "sample g w h xr yr x y' = Inr p"
      from d have d1: "distinct (map (idx t y) [0..<nat t])"
        and d2: "distinct (concat (map (\<lambda>y. map (idx t y) [0..<nat t]) ys))"
        and d3: "set (map (idx t y) [0..<nat t])
                  \<inter> set (concat (map (\<lambda>y. map (idx t y) [0..<nat t]) ys)) = {}"
        by simp_all
      show "out' ! idx t y' x = quantize p"
      proof (cases "y' \<in> set ys")
        case True
        then show ?thesis using IH d2 x p by blast
      next
        case False
        then have [simp]: "y' = y" using y' by simp
        have "idx t y x \<in> set (map (idx t y) [0..<nat t])" using x by simp
        then have "idx t y x \<notin> (\<Union>y\<in>set ys. idx t y ` {0..<nat t})" using d3 by auto
        then have "out' ! idx t y x = out1 ! idx t y x" using IH by blast
        moreover have "out1 ! idx t y x = quantize p" using R d1 x p by simp
        ultimately show ?thesis by simp
      qed
    qed
  qed
qed

lemma idx_nat: "idx (int n) y x = y * n + x"
  by (simp add: idx_def nat_add_distrib nat_mult_distrib)

lemma concat_rows: "concat (map (\<lambda>y. map (\<lambda>x. y * n + x) [0..<n]) [0..<m]) = [0..<m * n]"
proof (induction m)
  case 0
  then show ?case by simp
next
  case (Suc m)
  have a: "map (\<lambda>x. m * n + x) [0..<n] = [m * n..<m * n + n]"
    using map_add_upt[of "m * n" n] by (simp add: add.commute)
  have "concat (map (\<lambda>y. map (\<lambda>x. y * n + x) [0..<n]) [0..<Suc m])
      = concat (map (\<lambda>y. map (\<lambda>x. y * n + x) [0..<n]) [0..<m]) @ map (\<lambda>x. m * n + x) [0..<n]"
    by simp
  also have "\<dots> = [0..<m * n] @ [m * n..<m * n + n]"
    by (simp only: Suc a)
  also have "\<dots> = [0..<m * n + n]"
    using upt_add_eq_append[of 0 "m * n" n] by simp
  also have "m * n + n = Suc m * n" by simp
  finally show ?case .
qed

lemma resize_image_char:
  assumes "resize_image g w h t (out, tr) = Inr (out', tr')"
  defines "n \<equiv> nat t"
  shows "length out' = length out \<and> tr' = tr @ [0..<n * n] \<and> n * n \<le> length out
       \<and> (\<forall>y < n. \<forall>x < n. \<exists>p. resampled g w h t x y = Inr p \<and> out' ! (y * n + x) = quantize p)
       \<and> (\<forall>j \<ge> n * n. out' ! j = out ! j)"
proof (cases "0 < t")
  case False
  then have "n = 0" by (simp add: n_def)
  then show ?thesis using assms by (simp add: resize_image_def)
next
  case True
  then have t: "t = int n" by (simp add: n_def)
  define xr yr where "xr = fdiv (int_to_float w) (int_to_float t)"
    and "yr = fdiv (int_to_float h) (int_to_float t)"
  have rows: "resize_rows g w h (int n) xr yr [0..<n] (out, tr) = Inr (out', tr')"
    using assms(1) by (simp add: resize_image_def xr_def yr_def n_def[symmetric] t[symmetric])
  have tr: "concat (map (\<lambda>y. map (idx (int n) y) [0..<n]) [0..<n]) = [0..<n * n]"
    using concat_rows[of n n] by (simp add: idx_nat[abs_def])
  from resize_rows_char[OF rows]
  have c1: "length out' = length out"
    and c2: "tr' = tr @ concat (map (\<lambda>y. map (idx (int n) y) [0..<n]) [0..<n])"
    and c3: "\<forall>y\<in>{0..<n}. \<forall>x<n. idx (int n) y x < length out
               \<and> (\<exists>p. sample g w h xr yr x y = Inr p)"
    and c4: "\<forall>j. (\<forall>x\<in>{0..<n}. j \<notin> idx (int n) x ` {0..<n}) \<longrightarrow> out' ! j = out ! j"
    and c5: "distinct (concat (map (\<lambda>y. map (idx (int n) y) [0..<n]) [0..<n])) \<longrightarrow>
              (\<forall>y\<in>{0..<n}. \<forall>x<n. \<forall>p. sample g w h xr yr x y = Inr p \<longrightarrow>
                  out' ! idx (int n) y x = quantize p)"
    by simp_all
  have s: "sample g w h xr yr x y = resampled g w h t x y" for x y
    by (simp add: resampled_def xr_def yr_def)
  have n0: "0 < n" using True by (simp add: n_def)
  have "n - 1 \<in> {0..<n}" "n - 1 < n" using n0 by simp_all
  with c3 have "idx (int n) (n - 1) (n - 1) < length out" by blast
  then have "(n - 1) * n + (n - 1) < length out" by (simp only: idx_nat)
  moreover have "(n - 1) * n + (n - 1) + 1 = n * n"
    using n0 by (cases n) simp_all
  ultimately have cap: "n * n \<le> length out" by linarith
  have d: "distinct (concat (map (\<lambda>y. map (idx (int n) y) [0..<n]) [0..<n]))"
    unfolding tr by simp
  have px: "\<forall>y < n. \<forall>x < n. \<exists>p. resampled g w h t x y = Inr p \<and> out' ! (y * n + x) = quantize p"
  proof (intro allI impI)
    fix y x assume y: "y < n" and x: "x < n"
    from y have y': "y \<in> {0..<n}" by simp
    from c3 y' x obtain p where p: "sample g w h xr yr x y = Inr p" by blast
    from c5 d y' x p have "out' ! idx (int n) y x = quantize p" by blast
    then show "\<exists>p. resampled g w h t x y = Inr p \<and> out' ! (y * n + x) = quantize p"
      using p by (simp add: s idx_nat)
  qed
  have rest: "\<forall>j \<ge> n * n. out' ! j = out ! j"
  proof (intro allI impI)
    fix j assume j: "n * n \<le> j"
    have "\<forall>y\<in>{0..<n}. j \<notin> idx (int n) y ` {0..<n}"
    proof (intro ballI notI)
      fix y assume y: "y \<in> {0..<n}" and "j \<in> idx (int n) y ` {0..<n}"
      then obtain x where "x \<in> {0..<n}" "j = idx (int n) y x" by blast
      then have "j = y * n + x" "y < n" "x < n" using y by (simp_all add: idx_nat)
      then have "j < Suc y * n" by simp
      also have "\<dots> \<le> n * n" using \<open>y < n\<close> by (intro mult_le_mono1) simp
      finally have "j < n * n" .
      with j show False by simp
    qed
    then show "out' ! j = out ! j" using c4 by blast
  qed
  show ?thesis
  proof (intro conjI)
    show "length out' = length out" by (rule c1)
    show "tr' = tr @ [0..<n * n]" using c2 by (simp only: tr)
    show "n * n \<le> length out" by (rule cap)
    show "\<forall>y < n. \<forall>x < n. \<exists>p. resampled g w h t x y = Inr p \<and> out' ! (y * n + x) = quantize p"
      by (rule px)
    show "\<forall>j \<ge> n * n. out' ! j = out ! j" by (rule rest)
  qed
qed

section \<open>Interpolation at grid points\<close>

lemma sint_quantize: "sint (quantize p) = uint p - 128"
proof -
  have "sint (quantize p) = (uint p - 128 + 128) mod 256 - 128"
    unfolding quantize_def by (subst int_word_sint) simp
  then show ?thesis using uint8_range[of p] by simp
qed

lemma f32_round_1: "f32_round 1 = 1"
  using f32_round_of_int[of 1] by simp

lemma f32_round_uint8: "f32_round (of_int (uint (p :: uint8_t))) = of_int (uint p)"
  using uint8_range[of p] by (intro f32_round_of_int) simp

lemma float_to_int_of_int: "float_to_int (of_int i) = i"
  by (simp add: float_to_int_def)

lemma float_to_uint8_uint: "float_to_uint8 (of_int (uint (p :: uint8_t))) = Inr p"
  unfolding float_to_uint8_def float_to_int_of_int Let_def
  using uint8_range[of p] by (simp add: word_of_int_uint)

lemma idx_in_range:
  fixes x y w h :: int
  assumes "0 \<le> x" "x < w" "0 \<le> y" "y < h"
  shows "0 \<le> y * w + x \<and> y * w + x < w * h"
proof -
  have "y * w + x < (y + 1) * w" using assms by (simp add: algebra_simps)
  also have "\<dots> \<le> h * w" using assms by (intro mult_right_mono) simp_all
  finally show ?thesis using assms by (simp add: mult.commute)
qed

lemma rd_in_range:
  assumes "0 \<le> x" "x < w" "0 \<le> y" "y < h" "int (length img) = w * h"
  shows "rd img (y * w + x) = Inr (img ! nat (y * w + x))"
  using idx_in_range[OF assms(1-4)] assms(5) by (simp add: rd_def)

text \<open>At a grid point the interpolation is exact.\<close>

lemma bilinear_interpolate_grid:
  assumes i: "0 \<le> i" "i < w" and j: "0 \<le> j" "j < h"
    and len: "int (length img) = w * h"
    and fi: "f32_round (of_int i) = of_int i" and fj: "f32_round (of_int j) = of_int j"
  shows "bilinear_interpolate img w h (of_int i) (of_int j) = Inr (img ! nat (j * w + i))"
proof -
  define x2 where "x2 = (if i + 1 \<ge> w then w - 1 else i + 1)"
  define y2 where "y2 = (if j + 1 \<ge> h then h - 1 else j + 1)"
  have x2: "0 \<le> x2" "x2 < w" using i by (auto simp: x2_def)
  have y2: "0 \<le> y2" "y2 < h" using j by (auto simp: y2_def)
  have dx: "fsub (of_int i) (int_to_float i) = 0"
    by (simp add: fsub_def int_to_float_def fi f32_round_0)
  have dy: "fsub (of_int j) (int_to_float j) = 0"
    by (simp add: fsub_def int_to_float_def fj f32_round_0)
  have one: "int_to_float 1 = 1" by (simp add: int_to_float_def f32_round_1)
  have s10: "fsub 1 0 = 1" by (simp add: fsub_def f32_round_1)
  have m1: "fmul (of_int (uint p)) 1 = of_int (uint p)" for p :: uint8_t
    unfolding fmul_def mult_1_right by (rule f32_round_uint8)
  have m0: "fmul a 0 = 0" for a by (simp add: fmul_def f32_round_0)
  have m0': "fmul 0 a = 0" for a by (simp add: fmul_def f32_round_0)
  have a0: "fadd (of_int (uint p)) 0 = of_int (uint p)" for p :: uint8_t
    unfolding fadd_def add_0_right by (rule f32_round_uint8)
  have val: "fadd (fadd (fadd
                  (fmul (fmul (int_to_float (uint p1)) (fsub 1 0)) (fsub 1 0))
                  (fmul (fmul (int_to_float (uint p2)) 0) (fsub 1 0)))
                  (fmul (fmul (int_to_float (uint p3)) (fsub 1 0)) 0))
                  (fmul (fmul (int_to_float (uint p4)) 0) 0) = of_int (uint p1)"
    for p1 p2 p3 p4 :: uint8_t
    unfolding int_to_float_def f32_round_uint8 s10 m1 m0 m0' a0 ..
  show ?thesis
    unfolding bilinear_interpolate_def Let_def float_to_int_of_int dx dy one
      x2_def[symmetric] y2_def[symmetric]
      rd_in_range[OF i j len] rd_in_range[OF x2 j len] rd_in_range[OF i y2 len]
      rd_in_range[OF x2 y2 len] bind_e.simps val float_to_uint8_uint ..
qed

lemma f32_round_of_nat: "n < 2 ^ 24 \<Longrightarrow> f32_round (of_nat n) = of_nat n"
  using f32_round_of_int[of "int n"] by simp

lemma int_to_float_nat: "n < 2 ^ 24 \<Longrightarrow> int_to_float (int n) = of_nat n"
  by (simp add: int_to_float_def f32_round_of_nat)

lemma f32_round_numeral: "(numeral k :: int) < 2 ^ 24 \<Longrightarrow> f32_round (numeral k) = numeral k"
  using f32_round_of_int[of "numeral k"] by simp

lemma int_to_float_numeral:
  "(numeral k :: int) < 2 ^ 24 \<Longrightarrow> int_to_float (numeral k) = numeral k"
  by (simp add: int_to_float_def f32_round_numeral)

lemma sample_grid:
  assumes "fmul (int_to_float (int x)) xr = of_int i" "fmul (int_to_float (int y)) yr = of_int j"
    and "0 \<le> i" "i < w" "0 \<le> j" "j < h" "int (length g) = w * h"
    and "\<bar>i\<bar> < 2 ^ 24" "\<bar>j\<bar> < 2 ^ 24"
  shows "sample g w h xr yr x y = Inr (g ! nat (j * w + i))"
  unfolding sample_def Let_def assms(1,2)
  using assms(3-9) by (intro bilinear_interpolate_grid f32_round_of_int)

lemma sample_identity:
  assumes "x < n" "y < n" "n < 2 ^ 24" "length g = n * n"
  shows "sample g (int n) (int n) 1 1 x y = Inr (g ! (y * n + x))"
proof -
  have x: "x < 2 ^ 24" and y: "y < 2 ^ 24" using assms by simp_all
  have fx: "fmul (int_to_float (int x)) 1 = of_int (int x)"
    using x by (simp add: fmul_def int_to_float_nat f32_round_of_nat)
  have fy: "fmul (int_to_float (int y)) 1 = of_int (int y)"
    using y by (simp add: fmul_def int_to_float_nat f32_round_of_nat)
  have "sample g (int n) (int n) 1 1 x y = Inr (g ! nat (int y * int n + int x))"
    using assms x y by (intro sample_grid fx fy) simp_all
  moreover have "nat (int y * int n + int x) = y * n + x"
    by (simp add: nat_add_distrib nat_mult_distrib)
  ultimately show ?thesis by simp
qed

lemma ratio_identity:
  assumes "0 < n" "n < 2 ^ 24"
  shows "fdiv (int_to_float (int n)) (int_to_float (int n)) = 1"
  using assms by (simp add: fdiv_def int_to_float_nat f32_round_1)

lemma resampled_identity:
  assumes "x < n" "y < n" "n < 2 ^ 24" "length g = n * n"
  shows "resampled g (int n) (int n) (int n) x y = Inr (g ! (y * n + x))"
proof -
  have "0 < n" using assms by simp
  then show ?thesis
    unfolding resampled_def using assms by (simp add: ratio_identity sample_identity)
qed

lemma resize_image_2x2:
  assumes "length g = 4" "4 \<le> length out"
  shows "resize_image g 2 2 2 (out, tr) =
           Inr (out[0 := quantize (g ! 0), 1 := quantize (g ! 1), 2 := quantize (g ! 2),
                    3 := quantize (g ! 3)], tr @ [0, 1, 2, 3])"
proof -
  have u: "[0..<nat 2] = [0, 1]" "[0..<2] = [0, 1::nat]" by (simp_all add: upt_rec)
  have ne: "out \<noteq> []" using assms(2) by auto
  have r: "fdiv (int_to_float 2) (int_to_float 2) = 1"
    using ratio_identity[of 2] by simp
  have s: "sample g 2 2 1 1 0 0 = Inr (g ! 0)" "sample g 2 2 1 1 (Suc 0) 0 = Inr (g ! 1)"
    "sample g 2 2 1 1 0 (Suc 0) = Inr (g ! 2)" "sample g 2 2 1 1 (Suc 0) (Suc 0) = Inr (g ! 3)"
    using sample_identity[of 0 2 0 g] sample_identity[of 1 2 0 g]
      sample_identity[of 0 2 1 g] sample_identity[of 1 2 1 g] assms(1)
    by simp_all
  show ?thesis
    unfolding resize_image_def Let_def r u
    using assms(2) ne by (simp add: s u store_output_def)
qed

lemma resize_image_160x120_to_2:
  assumes "length g = 19200" "4 \<le> length out"
  shows "resize_image g 160 120 2 (out, tr) =
           Inr (out[0 := quantize (g ! 0), 1 := quantize (g ! 80), 2 := quantize (g ! 9600),
                    3 := quantize (g ! 9680)], tr @ [0, 1, 2, 3])"
proof -
  have u: "[0..<nat 2] = [0, 1]" "[0..<2] = [0, 1::nat]" by (simp_all add: upt_rec)
  have ne: "out \<noteq> []" using assms(2) by auto
  have xr: "fdiv (int_to_float 160) (int_to_float 2) = 80"
    by (simp add: fdiv_def int_to_float_numeral f32_round_numeral)
  have yr: "fdiv (int_to_float 120) (int_to_float 2) = 60"
    by (simp add: fdiv_def int_to_float_numeral f32_round_numeral)
  have f0: "fmul (int_to_float (int 0)) q = of_int 0" for q
    by (simp add: fmul_def int_to_float_def f32_round_0)
  have f1x: "fmul (int_to_float (int 1)) 80 = of_int 80"
    by (simp add: fmul_def int_to_float_def f32_round_1 f32_round_numeral)
  have f1y: "fmul (int_to_float (int 1)) 60 = of_int 60"
    by (simp add: fmul_def int_to_float_def f32_round_1 f32_round_numeral)
  have len: "int (length g) = 160 * 120" using assms(1) by simp
  have s00: "sample g 160 120 80 60 0 0 = Inr (g ! nat (0 * 160 + 0))"
    by (rule sample_grid[OF f0 f0 _ _ _ _ len]) simp_all
  have s10: "sample g 160 120 80 60 1 0 = Inr (g ! nat (0 * 160 + 80))"
    by (rule sample_grid[OF f1x f0 _ _ _ _ len]) simp_all
  have s01: "sample g 160 120 80 60 0 1 = Inr (g ! nat (60 * 160 + 0))"
    by (rule sample_grid[OF f0 f1y _ _ _ _ len]) simp_all
  have s11: "sample g 160 120 80 60 1 1 = Inr (g ! nat (60 * 160 + 80))"
    by (rule sample_grid[OF f1x f1y _ _ _ _ len]) simp_all
  have s: "sample g 160 120 80 60 0 0 = Inr (g ! 0)" "sample g 160 120 80 60 (Suc 0) 0 = Inr (g ! 80)"
    "sample g 160 120 80 60 0 (Suc 0) = Inr (g ! 9600)"
    "sample g 160 120 80 60 (Suc 0) (Suc 0) = Inr (g ! 9680)"
    using s00 s10 s01 s11 by simp_all
  show ?thesis
    unfolding resize_image_def Let_def xr yr u
    using assms(2) ne by (simp add: s u store_output_def)
qed

section \<open>The grayscale conversion\<close>

lemma float_to_uint8_luma:
  "\<exists>v. float_to_uint8 (luma r g b) = Inr v \<and> uint v = \<lfloor>luma r g b\<rfloor>"
proof -
  have l: "0 \<le> luma r g b" "luma r g b < 256" using luma_bounds[of r g b] by simp_all
  then have f: "0 \<le> \<lfloor>luma r g b\<rfloor>" "\<lfloor>luma r g b\<rfloor> \<le> 255"
    by (simp_all add: floor_less_iff le_floor_iff)
  have "uint (word_of_int \<lfloor>luma r g b\<rfloor> :: uint8_t) = \<lfloor>luma r g b\<rfloor>"
    using f by (simp add: uint_word_of_int)
  then show ?thesis using l f by (simp add: float_to_uint8_def float_to_int_def)
qed

lemma rd_Inr_iff: "rd img i = Inr v \<longleftrightarrow> 0 \<le> i \<and> i < int (length img) \<and> v = img ! nat i"
  by (auto simp: rd_def)

lemma rgb_to_gray_char:
  assumes "rgb_to_gray rgb ks acc = Inr gray"
  shows "length gray = length acc + length ks \<and> take (length acc) gray = acc
       \<and> (\<forall>k < length ks. 3 * (ks ! k) + 2 < length rgb
             \<and> float_to_uint8 (luma (rgb ! (3 * (ks ! k))) (rgb ! (3 * (ks ! k) + 1))
                    (rgb ! (3 * (ks ! k) + 2))) = Inr (gray ! (length acc + k)))"
  using assms
proof (induction ks arbitrary: acc)
  case Nil
  then show ?case by simp
next
  case (Cons i ks)
  from Cons.prems obtain v where
    r: "int i * 3 + 2 < int (length rgb)"
    and v: "float_to_uint8 (luma (rgb ! nat (int i * 3)) (rgb ! nat (int i * 3 + 1))
              (rgb ! nat (int i * 3 + 2))) = Inr v"
    and rest: "rgb_to_gray rgb ks (acc @ [v]) = Inr gray"
    by (auto simp: bind_e_Inr_iff rd_Inr_iff)
  have n: "nat (int i * 3) = 3 * i" "nat (int i * 3 + 1) = 3 * i + 1" "nat (int i * 3 + 2) = 3 * i + 2"
    by (simp_all add: nat_add_distrib nat_mult_distrib)
  note IH = Cons.IH[OF rest]
  from IH have len: "length gray = length acc + length (i # ks)" by simp
  from IH have t: "take (Suc (length acc)) gray = acc @ [v]" by simp
  have "take (length acc) gray = take (length acc) (take (Suc (length acc)) gray)"
    by (simp add: min_def)
  then have tk: "take (length acc) gray = acc" by (simp only: t) simp
  have "gray ! length acc = take (Suc (length acc)) gray ! length acc" by simp
  then have hd: "gray ! length acc = v" by (simp only: t) simp
  show ?case
  proof (intro conjI allI impI)
    show "length gray = length acc + length (i # ks)" by (rule len)
    show "take (length acc) gray = acc" by (rule tk)
  next
    fix k assume k: "k < length (i # ks)"
    show "3 * ((i # ks) ! k) + 2 < length rgb" using r IH k by (cases k) auto
    show "float_to_uint8 (luma (rgb ! (3 * ((i # ks) ! k))) (rgb ! (3 * ((i # ks) ! k) + 1))
            (rgb ! (3 * ((i # ks) ! k) + 2))) = Inr (gray ! (length acc + k))"
    proof (cases k)
      case 0
      then show ?thesis using v hd by (simp add: n)
    next
      case (Suc k')
      then show ?thesis using IH k by simp
    qed
  qed
qed

lemma rgb_to_gray_upt:
  assumes "rgb_to_gray rgb [0..<n] [] = Inr gray"
  shows "length gray = n
       \<and> (\<forall>i < n. 3 * i + 2 < length rgb
             \<and> float_to_uint8 (luma (rgb ! (3 * i)) (rgb ! (3 * i + 1)) (rgb ! (3 * i + 2)))
                 = Inr (gray ! i))"
  using rgb_to_gray_char[OF assms] by simp

lemma rgb_to_gray_total_aux:
  assumes "\<forall>i \<in> set ks. 3 * i + 2 < length rgb"
  shows "\<exists>gray. rgb_to_gray rgb ks acc = Inr gray"
  using assms
proof (induction ks arbitrary: acc)
  case Nil
  then show ?case by simp
next
  case (Cons i ks)
  then have r: "3 * i + 2 < length rgb" by simp
  then have rd: "rd rgb (int i * 3) = Inr (rgb ! nat (int i * 3))"
    "rd rgb (int i * 3 + 1) = Inr (rgb ! nat (int i * 3 + 1))"
    "rd rgb (int i * 3 + 2) = Inr (rgb ! nat (int i * 3 + 2))"
    by (simp_all add: rd_def)
  obtain v where v: "float_to_uint8 (luma (rgb ! nat (int i * 3)) (rgb ! nat (int i * 3 + 1))
              (rgb ! nat (int i * 3 + 2))) = Inr v"
    using float_to_uint8_luma by blast
  show ?case using Cons.IH[of "acc @ [v]"] Cons.prems by (simp add: rd v)
qed

lemma rgb_to_gray_total:
  assumes "3 * n \<le> length rgb"
  shows "\<exists>gray. rgb_to_gray rgb [0..<n] [] = Inr gray"
  using assms by (intro rgb_to_gray_total_aux) auto

lemma luma_0: "luma 0 0 0 = 0"
  by (simp add: luma_def fmul_def fadd_def int_to_float_def f32_round_0)

lemma luma_37: "luma 37 37 37 = 9699327 / 262144"
proof -
  have i: "int_to_float (uint (37 :: uint8_t)) = 37" using int_to_float_uint8[of 37] by simp
  have a1: "f32_round (10032775 / 33554432 * 37) = 2900099 / 262144" by code_simp
  have a2: "f32_round (4924113 / 8388608 * 37) = 11387011 / 524288" by code_simp
  have a3: "f32_round (15300821 / 134217728 * 37) = 8845787 / 2097152" by code_simp
  have s1: "f32_round (2900099 / 262144 + 11387011 / 524288) = 2148401 / 65536" by code_simp
  have s: "f32_round (2148401 / 65536 + 8845787 / 2097152) = 9699327 / 262144" by code_simp
  show ?thesis
    unfolding luma_def fadd_def fmul_def c299 c587 c114 i a1 a2 a3 s1 s ..
qed

lemma luma_255: "luma 255 255 255 = 255"
proof -
  have i: "int_to_float (uint (255 :: uint8_t)) = 255" using int_to_float_uint8[of 255] by simp
  have a1: "f32_round (10032775 / 33554432 * 255) = 624599 / 8192" by code_simp
  have a2: "f32_round (4924113 / 8388608 * 255) = 2452439 / 16384" by code_simp
  have a3: "f32_round (15300821 / 134217728 * 255) = 3810263 / 131072" by code_simp
  have s1: "f32_round (624599 / 8192 + 2452439 / 16384) = 3701637 / 16384" by code_simp
  have s: "f32_round (3701637 / 16384 + 3810263 / 131072) = 255" by code_simp
  show ?thesis
    unfolding luma_def fadd_def fmul_def c299 c587 c114 i a1 a2 a3 s1 s ..
qed

lemma gray_of_rgb_2x2: "rgb_to_gray rgb_2x2 [0..<4] [] = Inr gray_2x2"
proof -
  have u: "[0..<4] = [0, 1, 2, 3::nat]" by (simp add: upt_rec)
  have f0: "float_to_uint8 (luma 0 0 0) = Inr 0"
    by (simp add: luma_0 float_to_uint8_def float_to_int_def)
  have "\<lfloor>9699327 / 262144 :: rat\<rfloor> = 36" by (rule floor_unique) simp_all
  then have f37: "float_to_uint8 (luma 37 37 37) = Inr 36"
    by (simp add: luma_37 float_to_uint8_def float_to_int_def)
  have f255: "float_to_uint8 (luma 255 255 255) = Inr 255"
    by (simp add: luma_255 float_to_uint8_def float_to_int_def)
  show ?thesis
    unfolding u by (simp add: rgb_2x2_def gray_2x2_def rd_def f0 f37 f255)
qed

section \<open>A successful call\<close>

lemma preprocess_True:
  assumes "preprocessImageForML env t w = Inr (True, w')"
  shows "\<exists>f out rgb gray out' tr'.
           fb w = Some f \<and> output_buffer w = Some out
         \<and> fmt2rgb888 env (buf f) (len f) (format f) = Some rgb
         \<and> rgb_to_gray rgb [0..<width f * height f] [] = Inr gray
         \<and> resize_image gray (int (width f)) (int (height f)) t (out, stores w) = Inr (out', tr')
         \<and> output_buffer w' = Some out' \<and> stores w' = tr' \<and> fb w' = fb w"
proof -
  from assms obtain f where f: "fb w = Some f"
    by (cases "fb w") (simp_all add: preprocessImageForML_def)
  from assms f obtain out where out: "output_buffer w = Some out"
    by (cases "output_buffer w") (simp_all add: preprocessImageForML_def)
  from assms f out have m1: "malloc_ok env Rgb888_buf (width f * height f * 3)"
    by (simp add: preprocessImageForML_def Let_def split: if_splits)
  from assms f out m1 obtain rgb where rgb: "fmt2rgb888 env (buf f) (len f) (format f) = Some rgb"
    by (cases "fmt2rgb888 env (buf f) (len f) (format f)")
       (simp_all add: preprocessImageForML_def Let_def)
  have n: "nat (int (width f) * int (height f)) = width f * height f"
    by (simp add: nat_mult_distrib)
  from assms f out m1 rgb have m2: "malloc_ok env Gray_buf (width f * height f)"
    by (simp add: preprocessImageForML_def Let_def n split: if_splits)
  from assms f out m1 rgb m2 obtain gray s' where
    gray: "rgb_to_gray rgb [0..<width f * height f] [] = Inr gray"
    and s': "resize_image gray (int (width f)) (int (height f)) t (out, stores w) = Inr s'"
    and w': "w' = println ''Preprocessing complete!''
              (free Gray_buf (width f * height f)
                ((println ''Resizing image...''
                   (free Rgb888_buf (width f * height f * 3)
                     (println ''Converting to grayscale...''
                       (allocated Gray_buf (width f * height f)
                         (printf ''Target size: %dx%d\<newline>'' [t, t]
                           (printf ''Original size: %dx%d\<newline>'' [int (width f), int (height f)]
                             (allocated Rgb888_buf (width f * height f * 3)
                               (println ''Converting JPEG to RGB...'' w))))))))
                 \<lparr>output_buffer := Some (fst s'), stores := snd s'\<rparr>))"
    by (auto simp: preprocessImageForML_def Let_def n bind_e_Inr_iff println_def printf_def
          allocated_def free_def)
  show ?thesis
    using f out rgb gray s'
    by (cases s') (simp add: w' println_def printf_def allocated_def free_def)
qed

section \<open>Example runs\<close>

lemma quantize_values:
  "quantize 36 = 164" "quantize 0 = 128" "quantize 255 = 127"
  by (simp_all add: quantize_def)

lemma run_2x2:
  "preprocessImageForML env_ok 2 world_2x2 =
     Inr (True, world_2x2\<lparr>output_buffer := Some [164, 128, 128, 127, 0], stores := [0, 1, 2, 3],
            serial := [Println ''Converting JPEG to RGB...'',
                       Printf ''Original size: %dx%d\<newline>'' [2, 2],
                       Printf ''Target size: %dx%d\<newline>'' [2, 2],
                       Println ''Converting to grayscale...'',
                       Println ''Resizing image...'',
                       Println ''Preprocessing complete!'']\<rparr>)"
proof -
  have r: "resize_image gray_2x2 2 2 2 ([0, 0, 0, 0, 0], []) =
      Inr ([164, 128, 128, 127, 0], [0, 1, 2, 3])"
    using resize_image_2x2[of gray_2x2 "[0, 0, 0, 0, 0]" "[]"]
    by (simp add: gray_2x2_def quantize_values)
  show ?thesis
    unfolding preprocessImageForML_def
    by (simp add: world_2x2_def frame_2x2_def env_ok_def Let_def gray_of_rgb_2x2 r println_def printf_def
          allocated_def free_def)
qed

text \<open>
  Resampling the 3x2 buffer to 2x2: the ratios are 3 / 2 and 1, the pixels of column 1
  lie halfway between columns 1 and 2 of the source.
\<close>

lemma f32_round_half: "f32_round (1 / 2) = 1 / 2"
  by code_simp

lemma f32_round_three_halves: "f32_round (3 / 2) = 3 / 2"
  by code_simp

lemma floor_three_halves: "\<lfloor>3 / 2 :: rat\<rfloor> = 1"
  by (rule floor_unique) simp_all

lemma bilinear_3x2_row0: "bilinear_interpolate gray_3x2 3 2 (3 / 2) 0 = Inr 25"
  by (simp add: bilinear_interpolate_def gray_3x2_def rd_def Let_def float_to_int_def
        floor_three_halves fsub_def fmul_def fadd_def int_to_float_def f32_round_0 f32_round_1
        f32_round_half f32_round_numeral float_to_uint8_def)

lemma bilinear_3x2_row1: "bilinear_interpolate gray_3x2 3 2 (3 / 2) 1 = Inr 55"
  by (simp add: bilinear_interpolate_def gray_3x2_def rd_def Let_def float_to_int_def
        floor_three_halves fsub_def fmul_def fadd_def int_to_float_def f32_round_0 f32_round_1
        f32_round_half f32_round_numeral float_to_uint8_def)

lemma ratios_3x2:
  "fdiv (int_to_float 3) (int_to_float 2) = 3 / 2" "fdiv (int_to_float 2) (int_to_float 2) = 1"
  by (simp_all add: fdiv_def int_to_float_numeral f32_round_three_halves f32_round_1)

lemma sample_3x2:
  "sample gray_3x2 3 2 (3 / 2) 1 0 0 = Inr 10" "sample gray_3x2 3 2 (3 / 2) 1 (Suc 0) 0 = Inr 25"
  "sample gray_3x2 3 2 (3 / 2) 1 0 (Suc 0) = Inr 40"
  "sample gray_3x2 3 2 (3 / 2) 1 (Suc 0) (Suc 0) = Inr 55"
proof -
  have f0: "fmul (int_to_float (int 0)) q = 0" for q
    by (simp add: fmul_def int_to_float_def f32_round_0)
  have f1x: "fmul (int_to_float (int (Suc 0))) (3 / 2) = 3 / 2"
    by (simp add: fmul_def int_to_float_def f32_round_1 f32_round_three_halves)
  have f1y: "fmul (int_to_float (int (Suc 0))) 1 = 1"
    by (simp add: fmul_def int_to_float_def f32_round_1)
  have g: "bilinear_interpolate gray_3x2 3 2 0 0 = Inr 10"
    "bilinear_interpolate gray_3x2 3 2 0 1 = Inr 40"
    using bilinear_interpolate_grid[of 0 3 0 2 gray_3x2] bilinear_interpolate_grid[of 0 3 1 2 gray_3x2]
    by (simp_all add: gray_3x2_def f32_round_0 f32_round_1)
  show "sample gray_3x2 3 2 (3 / 2) 1 0 0 = Inr 10" "sample gray_3x2 3 2 (3 / 2) 1 (Suc 0) 0 = Inr 25"
    "sample gray_3x2 3 2 (3 / 2) 1 0 (Suc 0) = Inr 40"
    "sample gray_3x2 3 2 (3 / 2) 1 (Suc 0) (Suc 0) = Inr 55"
    unfolding sample_def Let_def f0 f1x f1y
    by (simp_all add: g bilinear_3x2_row0 bilinear_3x2_row1)
qed

lemma resize_image_3x2:
  "resize_image gray_3x2 3 2 2 ([0, 0, 0, 0], []) = Inr ([138, 153, 168, 183], [0, 1, 2, 3])"
proof -
  have u: "[0..<nat 2] = [0, 1]" "[0..<2] = [0, 1::nat]" by (simp_all add: upt_rec)
  show ?thesis
    unfolding resize_image_def Let_def ratios_3x2 u
    by (simp add: sample_3x2 u store_output_def quantize_def)
qed

section \<open>Further facts used by the claims\<close>

lemma float_to_int_nonneg: "0 \<le> q \<Longrightarrow> float_to_int q = \<lfloor>q\<rfloor>"
  by (simp add: float_to_int_def)

lemma float_to_int_truncate: "float_to_int q = truncate_toward_zero q"
  by (simp add: float_to_int_def truncate_toward_zero_def ceiling_def)

lemma float_to_uint8_Inr:
  "float_to_uint8 q = Inr p \<Longrightarrow> uint p = float_to_int q"
  by (auto simp: float_to_uint8_def Let_def uint_word_of_int split: if_splits)

lemma src_coordinate_nonneg:
  assumes "0 \<le> w" "0 \<le> t"
  shows "0 \<le> fmul (int_to_float (int x)) (fdiv (int_to_float w) (int_to_float t))"
proof -
  have "0 \<le> int_to_float (int x)" "0 \<le> int_to_float w" "0 \<le> int_to_float t"
    using assms by (simp_all add: int_to_float_def f32_round_nonneg)
  then show ?thesis
    by (simp add: fmul_def fdiv_def f32_round_nonneg)
qed

lemma bilinear_interpolate_spec:
  assumes "bilinear_interpolate img w h sx sy = Inr p" and "0 \<le> sx" and "0 \<le> sy"
  shows "uint p =
     (let x1 = \<lfloor>sx\<rfloor>; y1 = \<lfloor>sy\<rfloor>;
          x2 = min (x1 + 1) (w - 1); y2 = min (y1 + 1) (h - 1);
          dx = fsub sx (int_to_float x1); dy = fsub sy (int_to_float y1);
          p1 = neighbour img w x1 y1; p2 = neighbour img w x2 y1;
          p3 = neighbour img w x1 y2; p4 = neighbour img w x2 y2
      in truncate_toward_zero
           (fadd (fadd (fadd
              (fmul (fmul p1 (fsub 1 dx)) (fsub 1 dy))
              (fmul (fmul p2 dx) (fsub 1 dy)))
              (fmul (fmul p3 (fsub 1 dx)) dy))
              (fmul (fmul p4 dx) dy)))"
proof -
  have c: "(if a + 1 \<ge> b then b - 1 else a + 1) = min (a + 1) (b - 1)" for a b :: int
    by (simp add: min_def)
  have one: "int_to_float 1 = 1" by (simp add: int_to_float_def f32_round_1)
  from assms(1) show ?thesis
    unfolding bilinear_interpolate_def Let_def float_to_int_nonneg[OF assms(2)]
      float_to_int_nonneg[OF assms(3)] c one neighbour_def
    by (auto simp: bind_e_Inr_iff rd_Inr_iff float_to_int_truncate dest!: float_to_uint8_Inr)
qed

text \<open>
  The sample that \<open>bilinear_interpolate\<close> returns at non-negative binary32 coordinates is
  the floor of a binary32 number within \<open>1 / 1024\<close> of the exact weighted sum.
\<close>

lemma bilinear_interpolate_weighted_sum:
  assumes "bilinear_interpolate img w h (f32_round qx) (f32_round qy) = Inr p"
    and "0 \<le> f32_round qx" and "0 \<le> f32_round qy"
  shows "\<exists>v. uint p = \<lfloor>v\<rfloor>
           \<and> \<bar>v - spec_bilinear img w h (f32_round qx) (f32_round qy)\<bar> \<le> 1 / 1024
           \<and> 0 \<le> spec_bilinear img w h (f32_round qx) (f32_round qy)"
proof -
  define x1 y1 where "x1 = \<lfloor>f32_round qx\<rfloor>" and "y1 = \<lfloor>f32_round qy\<rfloor>"
  define x2 y2 where "x2 = min (x1 + 1) (w - 1)" and "y2 = min (y1 + 1) (h - 1)"
  define dx dy where "dx = f32_round qx - of_int x1" and "dy = f32_round qy - of_int y1"
  define P1 P2 P3 P4 where "P1 = neighbour img w x1 y1" and "P2 = neighbour img w x2 y1"
    and "P3 = neighbour img w x1 y2" and "P4 = neighbour img w x2 y2"
  define v where "v = fadd (fadd (fadd
              (fmul (fmul P1 (fsub 1 dx)) (fsub 1 dy))
              (fmul (fmul P2 dx) (fsub 1 dy)))
              (fmul (fmul P3 (fsub 1 dx)) dy))
              (fmul (fmul P4 dx) dy)"
  have fx: "fsub (f32_round qx) (int_to_float x1) = dx"
    unfolding x1_def dx_def by (rule fsub_floor_exact[OF assms(2)])
  have fy: "fsub (f32_round qy) (int_to_float y1) = dy"
    unfolding y1_def dy_def by (rule fsub_floor_exact[OF assms(3)])
  have u: "uint p = truncate_toward_zero v"
    using bilinear_interpolate_spec[OF assms]
    unfolding Let_def x1_def[symmetric] y1_def[symmetric] x2_def[symmetric] y2_def[symmetric]
      fx fy P1_def[symmetric] P2_def[symmetric] P3_def[symmetric] P4_def[symmetric]
      v_def[symmetric] .
  have P: "0 \<le> P1" "P1 \<le> 255" "0 \<le> P2" "P2 \<le> 255" "0 \<le> P3" "P3 \<le> 255"
    "0 \<le> P4" "P4 \<le> 255"
    unfolding P1_def P2_def P3_def P4_def neighbour_def
    using uint8_rat_range by blast+
  have d: "0 \<le> dx" "dx < 1" "0 \<le> dy" "dy < 1"
    unfolding dx_def dy_def x1_def y1_def by linarith+
  note e = weighted_sum_error[OF P d, folded v_def]
  have s: "spec_bilinear img w h (f32_round qx) (f32_round qy)
      = P1 * ((1 - dx) * (1 - dy)) + P2 * (dx * (1 - dy)) + P3 * ((1 - dx) * dy) + P4 * (dx * dy)"
    unfolding spec_bilinear_def Let_def x1_def[symmetric] y1_def[symmetric] x2_def[symmetric]
      y2_def[symmetric] dx_def[symmetric] dy_def[symmetric] P1_def[symmetric] P2_def[symmetric]
      P3_def[symmetric] P4_def[symmetric] ..
  have n: "0 \<le> P1 * ((1 - dx) * (1 - dy)) + P2 * (dx * (1 - dy)) + P3 * ((1 - dx) * dy)
      + P4 * (dx * dy)"
    using P d by (intro add_nonneg_nonneg mult_nonneg_nonneg) simp_all
  have "uint p = \<lfloor>v\<rfloor>" using u e(1) by (simp add: truncate_toward_zero_def)
  then show ?thesis using e(2) n unfolding s by blast
qed

text \<open>
  Output pixel \<open>(2, 1)\<close> of the 2x2 buffer of 255s resampled to 3x3. The ratio is the
  binary32 number nearest to \<open>2 / 3\<close>, the offsets are \<open>dx = 2796203 / 8388608\<close> and
  \<open>dy = 11184811 / 16777216\<close>, and the binary32 sum of lines 31-34 is
  \<open>16711679 / 65536\<close>, that is \<open>255 - 1 / 65536\<close>.
\<close>

lemma ratio_2_3: "fdiv (int_to_float 2) (int_to_float 3) = 11184811 / 16777216"
proof -
  have "f32_round (2 / 3) = 11184811 / 16777216" by code_simp
  then show ?thesis by (simp add: fdiv_def int_to_float_numeral)
qed

lemma src_2_3:
  "fmul (int_to_float (int 2)) (11184811 / 16777216) = 11184811 / 8388608"
  "fmul (int_to_float (int 1)) (11184811 / 16777216) = 11184811 / 16777216"
proof -
  have a: "int_to_float (int 2) = 2" "int_to_float (int 1) = 1"
    by (simp_all add: int_to_float_def f32_round_numeral f32_round_1)
  have b: "fmul 2 (11184811 / 16777216) = 11184811 / 8388608"
    "fmul 1 (11184811 / 16777216) = 11184811 / 16777216"
    by code_simp+
  show "fmul (int_to_float (int 2)) (11184811 / 16777216) = 11184811 / 8388608"
    "fmul (int_to_float (int 1)) (11184811 / 16777216) = 11184811 / 16777216"
    by (simp_all only: a b)
qed

lemma floor_src_2_3:
  "\<lfloor>11184811 / 8388608 :: rat\<rfloor> = 1" "\<lfloor>11184811 / 16777216 :: rat\<rfloor> = 0"
  by (rule floor_unique; simp)+

lemma bilinear_255_2x2:
  "bilinear_interpolate gray_255_2x2 2 2 (11184811 / 8388608) (11184811 / 16777216) = Inr 254"
proof -
  have c: "float_to_int (11184811 / 8388608) = 1" "float_to_int (11184811 / 16777216) = 0"
    by (simp_all add: float_to_int_def floor_src_2_3)
  have i: "int_to_float 1 = 1" "int_to_float 0 = 0"
    by (simp_all add: int_to_float_def f32_round_0 f32_round_1)
  have dx: "fsub (11184811 / 8388608) 1 = 2796203 / 8388608" by code_simp
  have dy: "fsub (11184811 / 16777216) 0 = 11184811 / 16777216" by code_simp
  have mx: "fsub 1 (2796203 / 8388608) = 5592405 / 8388608" by code_simp
  have my: "fsub 1 (11184811 / 16777216) = 5592405 / 16777216" by code_simp
  have a1: "fmul 255 (5592405 / 8388608) = 11141119 / 65536" by code_simp
  have a2: "fmul 255 (2796203 / 8388608) = 11141121 / 131072" by code_simp
  have t1: "fmul (11141119 / 65536) (5592405 / 16777216) = 1856853 / 32768" by code_simp
  have t2: "fmul (11141121 / 131072) (5592405 / 16777216) = 14854827 / 524288" by code_simp
  have t3: "fmul (11141119 / 65536) (11184811 / 16777216) = 7427413 / 65536" by code_simp
  have t4: "fmul (11141121 / 131072) (11184811 / 16777216) = 3713707 / 65536" by code_simp
  have s1: "fadd (1856853 / 32768) (14854827 / 524288) = 11141119 / 131072" by code_simp
  have s2: "fadd (11141119 / 131072) (7427413 / 65536) = 3249493 / 16384" by code_simp
  have s3: "fadd (3249493 / 16384) (3713707 / 65536) = 16711679 / 65536" by code_simp
  have "\<lfloor>16711679 / 65536 :: rat\<rfloor> = 254" by (rule floor_unique) simp_all
  then have r: "float_to_uint8 (16711679 / 65536) = Inr 254"
    by (simp add: float_to_uint8_def float_to_int_def)
  show ?thesis
    by (simp add: bilinear_interpolate_def Let_def c rd_def gray_255_2x2_def i
          dx dy mx my a1 a2 t1 t2 t3 t4 s1 s2 s3 r)
qed

lemma resampled_255_2x2: "resampled gray_255_2x2 2 2 3 2 1 = Inr 254"
  unfolding resampled_def sample_def Let_def ratio_2_3 src_2_3 by (rule bilinear_255_2x2)

lemma spec_weighted_sum_255_2x2: "spec_weighted_sum gray_255_2x2 2 2 3 2 1 = 255"
  unfolding spec_weighted_sum_def ratio_2_3 src_2_3
  by (simp add: spec_bilinear_def Let_def floor_src_2_3 neighbour_def gray_255_2x2_def)

lemma spec_weighted_sum_3x2: "spec_weighted_sum gray_3x2 3 2 2 1 0 = 25"
proof -
  have a: "fmul (int_to_float (int 1)) (3 / 2) = 3 / 2" "fmul (int_to_float (int 0)) 1 = 0"
    by (simp_all add: fmul_def int_to_float_def f32_round_0 f32_round_1 f32_round_three_halves)
  show ?thesis
    unfolding spec_weighted_sum_def ratios_3x2 a
    by (simp add: spec_bilinear_def Let_def floor_three_halves neighbour_def gray_3x2_def)
qed

lemma run_2x2_used:
  "preprocessImageForML env_small_heap 2 world_2x2_used =
     Inr (True, world_2x2_used\<lparr>output_buffer := Some [164, 128, 128, 127],
            stores := [3, 0, 1, 2, 3],
            serial := [Println ''boot'',
                       Println ''Converting JPEG to RGB...'',
                       Printf ''Original size: %dx%d\<newline>'' [2, 2],
                       Printf ''Target size: %dx%d\<newline>'' [2, 2],
                       Println ''Converting to grayscale...'',
                       Println ''Resizing image...'',
                       Println ''Preprocessing complete!'']\<rparr>)"
proof -
  have r: "resize_image gray_2x2 2 2 2 ([1, 2, 3, 4], [3]) =
      Inr ([164, 128, 128, 127], [3, 0, 1, 2, 3])"
    using resize_image_2x2[of gray_2x2 "[1, 2, 3, 4]" "[3]"]
    by (simp add: gray_2x2_def quantize_values)
  show ?thesis
    unfolding preprocessImageForML_def
    by (simp add: world_2x2_used_def frame_2x2_def env_small_heap_def Let_def gray_of_rgb_2x2 r
          println_def printf_def allocated_def free_def)
qed

lemma gray_alloc_failure_frees_rgb888:
  "preprocessImageForML env_gray_alloc_fails 96 world_2x2 =
       Inr (False, world_2x2\<lparr>heap := [],
              serial := [Println ''Converting JPEG to RGB...'',
                         Printf ''Original size: %dx%d\<newline>'' [2, 2],
                         Printf ''Target size: %dx%d\<newline>'' [96, 96],
                         Println ''Failed to allocate grayscale buffer'']\<rparr>)"
  by (simp add: preprocessImageForML_def world_2x2_def frame_2x2_def env_gray_alloc_fails_def
        println_def printf_def allocated_def free_def)

lemma gray_160x120_samples:
  "length gray_160x120 = 19200"
  "gray_160x120 ! 0 = 10" "gray_160x120 ! Suc 0 = 20" "gray_160x120 ! 160 = 30" "gray_160x120 ! 161 = 40"
  "gray_160x120 ! 80 = 0" "gray_160x120 ! 9600 = 0" "gray_160x120 ! 9680 = 0"
  by (simp_all add: gray_160x120_def nth_append nth_Cons')

lemma count_list_upt: "count_list [0..<m] i = (if i < m then 1 else 0)"
  by (induction m) auto

lemma take_4_list_update:
  assumes "4 \<le> length xs"
  shows "take 4 (xs[0 := a, 1 := b, 2 := c, 3 := d]) = [a, b, c, d]"
proof (rule nth_equalityI)
  show "length (take 4 (xs[0 := a, 1 := b, 2 := c, 3 := d])) = length [a, b, c, d]"
    using assms by simp
  fix i assume "i < length (take 4 (xs[0 := a, 1 := b, 2 := c, 3 := d]))"
  then have "i < 4" by simp
  then consider "i = 0" | "i = 1" | "i = 2" | "i = 3" by linarith
  moreover have "0 < length xs" "1 < length xs" "2 < length xs" "3 < length xs"
    using assms by linarith+
  ultimately show "take 4 (xs[0 := a, 1 := b, 2 := c, 3 := d]) ! i = [a, b, c, d] ! i"
    by cases (simp_all add: nth_list_update)
qed

lemma gray_160x120_grid_samples:
  "length gray_160x120_grid = 19200"
  "gray_160x120_grid ! 0 = 10" "gray_160x120_grid ! 80 = 20"
  "gray_160x120_grid ! 9600 = 30" "gray_160x120_grid ! 9680 = 40"
  by (simp_all add: gray_160x120_grid_def nth_list_update)

text \<open>
  Whenever the RGB888 buffer has been allocated and the conversion reports failure, the
  call returns false with that buffer still on the heap.
\<close>

lemma decode_failure_keeps_rgb888:
  assumes "fb w = Some f" and "output_buffer w = Some out"
    and "malloc_ok env Rgb888_buf (width f * height f * 3)"
    and "fmt2rgb888 env (buf f) (len f) (format f) = None"
  shows "\<exists>w'. preprocessImageForML env t w = Inr (False, w')
           \<and> heap w' = (Rgb888_buf, width f * height f * 3) # heap w"
  using assms by (simp add: preprocessImageForML_def Let_def println_def allocated_def)

section \<open>The claims\<close>

text \<open>
  C1. The claim: on every call that returns false, every intermediate buffer allocated
  before the failure (the RGB888 buffer and, if allocated, the grayscale buffer) has been
  freed. The code breaks it on one path. For the 2x2 frame, with an allocator that
  succeeds and a conversion that reports failure, the call returns false at line 58 and
  the 12 bytes of the RGB888 buffer are still allocated: the heap, empty before the
  call, holds that block after it. The failure path of lines 69-73 frees the same
  buffer (\<open>gray_alloc_failure_frees_rgb888\<close>); \<open>decode_failure_keeps_rgb888\<close> is the
  general statement.
\<close>

theorem decode_failure_leaks_rgb888:
  "heap world_2x2 = []
   \<and> preprocessImageForML env_decode_fails 96 world_2x2 =
       Inr (False, world_2x2\<lparr>heap := [(Rgb888_buf, 12)],
              serial := [Println ''Converting JPEG to RGB...'', Println ''JPEG conversion failed'']\<rparr>)"
  by (simp add: preprocessImageForML_def world_2x2_def frame_2x2_def env_decode_fails_def
        println_def allocated_def)

text \<open>
  C2. The claim: a call with a null frame pointer, a null output pointer, or a frame of
  width or height zero returns false, allocates nothing and stores nothing. The code
  tests the two pointers and nothing else (line 41). What holds: with a null \<open>fb\<close> or a
  null \<open>output_buffer\<close> the call returns false and leaves the world as it was (no
  allocation, no store, no message); with a frame of width or height zero it requests a
  block of zero bytes, and when that request returns null it returns false with the heap,
  the tensor, the stores and the frame as they were.
\<close>

theorem invalid_arguments_return_false:
  "(fb w = None \<or> output_buffer w = None \<longrightarrow> preprocessImageForML env t w = Inr (False, w))
   \<and> (\<forall>f. fb w = Some f \<and> output_buffer w \<noteq> None \<and> (width f = 0 \<or> height f = 0)
            \<and> \<not> malloc_ok env Rgb888_buf 0
        \<longrightarrow> (\<exists>w'. preprocessImageForML env t w = Inr (False, w')
                  \<and> heap w' = heap w \<and> output_buffer w' = output_buffer w
                  \<and> stores w' = stores w \<and> fb w' = fb w))"
  by (auto simp: preprocessImageForML_def println_def split: option.splits)

theorem invalid_arguments_return_false_witness:
  "preprocessImageForML env_ok 96 world_null_fb = Inr (False, world_null_fb)
   \<and> preprocessImageForML env_ok 96 world_null_output = Inr (False, world_null_output)
   \<and> width frame_0x0 = 0 \<and> \<not> malloc_ok env_no_empty_block Rgb888_buf 0
   \<and> (\<exists>w'. preprocessImageForML env_no_empty_block 96 world_0x0 = Inr (False, w')
            \<and> heap w' = heap world_0x0 \<and> output_buffer w' = output_buffer world_0x0
            \<and> stores w' = stores world_0x0 \<and> fb w' = fb world_0x0)"
  using invalid_arguments_return_false[of world_null_fb env_ok 96]
    invalid_arguments_return_false[of world_null_output env_ok 96]
    invalid_arguments_return_false[of world_0x0 env_no_empty_block 96]
  by (simp add: world_null_fb_def world_null_output_def world_0x0_def frame_0x0_def
        env_no_empty_block_def)

text \<open>
  The claim fails for a frame of width and height zero when the allocator returns a block
  for the request of zero bytes: with a conversion that then reports failure, the call
  returns false after having allocated the RGB888 buffer.
\<close>

theorem zero_size_frame_allocates:
  "width frame_0x0 = 0 \<and> height frame_0x0 = 0 \<and> heap world_0x0 = []
   \<and> preprocessImageForML env_decode_fails 96 world_0x0 =
       Inr (False, world_0x0\<lparr>heap := [(Rgb888_buf, 0)],
              serial := [Println ''Converting JPEG to RGB...'', Println ''JPEG conversion failed'']\<rparr>)"
  by (simp add: preprocessImageForML_def world_0x0_def frame_0x0_def env_decode_fails_def
        println_def allocated_def)

text \<open>
  C3. The claim: for every output pixel \<open>(x, y)\<close> with \<open>x, y < target_size\<close> the resampler
  takes the source coordinates \<open>x * (src_width / target_size)\<close> and
  \<open>y * (src_height / target_size)\<close>, their floors \<open>x1\<close>, \<open>y1\<close>, the neighbours
  \<open>x2 = min (x1 + 1) (width - 1)\<close> and \<open>y2 = min (y1 + 1) (height - 1)\<close>, and returns the
  weighted sum of the four neighbouring samples with the weights \<open>(1 - dx)(1 - dy)\<close>,
  \<open>dx (1 - dy)\<close>, \<open>(1 - dx) dy\<close>, \<open>dx dy\<close>, truncated to an unsigned 8-bit value
  (\<open>spec_resample\<close>). The code does not return that value at every pixel: lines 31-34
  evaluate the sum in binary32, each term as \<open>(p * (1 - dx)) * (1 - dy)\<close> with a rounding
  after every product and every sum, and the truncation of line 36 turns a sum that
  comes out just below an integer into the integer below. What holds, for every pixel of
  a resampling that succeeds: the sample that the loop body computes and stores (less
  128) is the floor of a number within \<open>1 / 1024\<close> of the weighted sum of the claim, taken
  at the coordinates, floors, neighbours and offsets of the claim; hence it differs from
  the truncated weighted sum by at most 1. The source dimensions are those of a frame,
  hence not negative.
\<close>

theorem resampler_within_one_of_weighted_sum:
  assumes "resize_image gray w h t (out, tr) = Inr (out', tr')"
    and "0 \<le> w" and "0 \<le> h" and "x < nat t" and "y < nat t"
  shows "\<exists>p v. resampled gray w h t x y = Inr p
             \<and> out' ! (y * nat t + x) = quantize p
             \<and> uint p = \<lfloor>v\<rfloor>
             \<and> \<bar>v - spec_weighted_sum gray w h t x y\<bar> \<le> 1 / 1024
             \<and> \<bar>uint p - spec_resample gray w h t x y\<bar> \<le> 1"
proof -
  from resize_image_char[OF assms(1)] assms(4,5)
  obtain p where p: "resampled gray w h t x y = Inr p" "out' ! (y * nat t + x) = quantize p"
    by blast
  have t: "0 \<le> t" using assms(4) by simp
  define e where "e = spec_weighted_sum gray w h t x y"
  have "\<exists>v. uint p = \<lfloor>v\<rfloor> \<and> \<bar>v - e\<bar> \<le> 1 / 1024 \<and> 0 \<le> e"
    using p(1) src_coordinate_nonneg[OF assms(2) t, of x] src_coordinate_nonneg[OF assms(3) t, of y]
    unfolding e_def resampled_def sample_def spec_weighted_sum_def Let_def fmul_def
    by (rule bilinear_interpolate_weighted_sum)
  then obtain v where v: "uint p = \<lfloor>v\<rfloor>" "\<bar>v - e\<bar> \<le> 1 / 1024" "0 \<le> e" by blast
  have s: "spec_resample gray w h t x y = \<lfloor>e\<rfloor>"
    using v(3) by (simp add: spec_resample_def truncate_toward_zero_def e_def)
  have a: "of_int \<lfloor>v\<rfloor> \<le> v" "v < of_int \<lfloor>v\<rfloor> + 1" "of_int \<lfloor>e\<rfloor> \<le> e" "e < of_int \<lfloor>e\<rfloor> + 1"
    by linarith+
  have "(of_int \<lfloor>v\<rfloor> :: rat) < of_int \<lfloor>e\<rfloor> + 2" "(of_int \<lfloor>e\<rfloor> :: rat) < of_int \<lfloor>v\<rfloor> + 2"
    using v(2) a unfolding abs_le_iff by linarith+
  then have "(of_int \<lfloor>v\<rfloor> :: rat) < of_int (\<lfloor>e\<rfloor> + 2)" "(of_int \<lfloor>e\<rfloor> :: rat) < of_int (\<lfloor>v\<rfloor> + 2)"
    by simp_all
  then have "\<lfloor>v\<rfloor> < \<lfloor>e\<rfloor> + 2" "\<lfloor>e\<rfloor> < \<lfloor>v\<rfloor> + 2" by (simp_all only: of_int_less_iff)
  then have "\<bar>uint p - spec_resample gray w h t x y\<bar> \<le> 1" unfolding s v(1) by linarith
  then show ?thesis using p v(1,2) unfolding e_def by blast
qed

theorem resampler_within_one_of_weighted_sum_witness:
  "resize_image gray_3x2 3 2 2 ([0, 0, 0, 0], []) = Inr ([138, 153, 168, 183], [0, 1, 2, 3])
   \<and> resampled gray_3x2 3 2 2 1 0 = Inr 25
   \<and> [138, 153, 168, 183] ! (0 * nat 2 + 1) = quantize 25
   \<and> spec_weighted_sum gray_3x2 3 2 2 1 0 = 25
   \<and> spec_resample gray_3x2 3 2 2 1 0 = 25
   \<and> \<bar>uint (25 :: uint8_t) - spec_resample gray_3x2 3 2 2 1 0\<bar> \<le> 1"
proof -
  have r: "resampled gray_3x2 3 2 2 1 0 = Inr 25"
    by (simp add: resampled_def ratios_3x2 sample_3x2)
  have s: "spec_resample gray_3x2 3 2 2 1 0 = 25"
    unfolding spec_resample_def spec_weighted_sum_3x2 by (simp add: truncate_toward_zero_def)
  from resampler_within_one_of_weighted_sum[OF resize_image_3x2, of 1 0]
  obtain p where "resampled gray_3x2 3 2 2 1 0 = Inr p"
    and "[138, 153, 168, 183] ! (0 * nat 2 + 1) = quantize p"
    and "\<bar>uint p - spec_resample gray_3x2 3 2 2 1 0\<bar> \<le> 1"
    by auto
  with r s show ?thesis using resize_image_3x2 spec_weighted_sum_3x2 by simp
qed

text \<open>
  The claim fails at output pixel \<open>(2, 1)\<close> of the 2x2 buffer whose four samples are 255,
  resampled to 3x3: the weighted sum of the claim is 255, the weights adding up to 1,
  and the code returns 254.
\<close>

theorem resampler_differs_from_weighted_sum:
  "resampled gray_255_2x2 2 2 3 2 1 = Inr 254
   \<and> spec_weighted_sum gray_255_2x2 2 2 3 2 1 = 255
   \<and> spec_resample gray_255_2x2 2 2 3 2 1 = 255"
  unfolding spec_resample_def spec_weighted_sum_255_2x2 using resampled_255_2x2
  by (simp add: truncate_toward_zero_def)

text \<open>
  C4. For every pixel \<open>i\<close> of the decoded RGB buffer, the grayscale sample is the weighted
  sum \<open>0.299 R + 0.587 G + 0.114 B\<close>, evaluated in binary32 as line 81 does (\<open>luma\<close>),
  truncated toward zero (the sum is not negative, so this is its floor): no rounding to
  nearest. The binary32 sum is within \<open>1 / 8192\<close> of the exact weighted sum. In
  particular, for \<open>R = G = B = v\<close> the sample is \<open>v\<close> or \<open>v - 1\<close>.
\<close>

theorem grayscale_is_truncated_luma:
  assumes "rgb_to_gray rgb [0..<n] [] = Inr gray" and "i < n"
  shows "(let r = rgb ! (3 * i); g = rgb ! (3 * i + 1); b = rgb ! (3 * i + 2);
              e = (299 * of_int (uint r) + 587 * of_int (uint g) + 114 * of_int (uint b)) / (1000 :: rat)
          in 3 * i + 2 < length rgb
           \<and> uint (gray ! i) = \<lfloor>luma r g b\<rfloor>
           \<and> 0 \<le> luma r g b
           \<and> \<bar>luma r g b - e\<bar> \<le> 1 / 8192
           \<and> (r = g \<and> g = b \<longrightarrow> uint (gray ! i) = uint r \<or> uint (gray ! i) = uint r - 1))"
proof -
  define r g b where "r = rgb ! (3 * i)" and "g = rgb ! (3 * i + 1)" and "b = rgb ! (3 * i + 2)"
  define e :: rat where
    "e = (299 * of_int (uint r) + 587 * of_int (uint g) + 114 * of_int (uint b)) / 1000"
  from rgb_to_gray_upt[OF assms(1)] assms(2)
  have len: "3 * i + 2 < length rgb" and v: "float_to_uint8 (luma r g b) = Inr (gray ! i)"
    by (simp_all add: r_def g_def b_def)
  from float_to_uint8_luma[of r g b] v have fl: "uint (gray ! i) = \<lfloor>luma r g b\<rfloor>" by auto
  from luma_bounds[of r g b]
  have l0: "0 \<le> luma r g b" and le: "\<bar>luma r g b - e\<bar> \<le> 1 / 8192"
    by (simp_all add: e_def)
  have eq: "uint (gray ! i) = uint r \<or> uint (gray ! i) = uint r - 1" if "r = g" "g = b"
  proof -
    have "e = of_int (uint r)" using that by (simp add: e_def)
    with le have "of_int (uint r - 1) \<le> luma r g b" "luma r g b < of_int (uint r + 1)"
      unfolding abs_le_iff by simp_all
    then have "uint r - 1 \<le> \<lfloor>luma r g b\<rfloor>" "\<lfloor>luma r g b\<rfloor> < uint r + 1"
      by (simp_all only: le_floor_iff floor_less_iff)
    then show ?thesis using fl by linarith
  qed
  show ?thesis
    unfolding Let_def r_def[symmetric] g_def[symmetric] b_def[symmetric] e_def[symmetric]
    using len fl l0 le eq by blast
qed

theorem grayscale_is_truncated_luma_witness:
  "rgb_to_gray rgb_2x2 [0..<4] [] = Inr gray_2x2 \<and> (0::nat) < 4
   \<and> uint (gray_2x2 ! 0) = \<lfloor>luma 37 37 37\<rfloor>
   \<and> \<bar>luma 37 37 37 - 37\<bar> \<le> 1 / 8192
   \<and> uint (gray_2x2 ! 0) = 37 - 1"
  using grayscale_is_truncated_luma[OF gray_of_rgb_2x2, of 0] gray_of_rgb_2x2
  by (simp add: rgb_2x2_def gray_2x2_def Let_def)

text \<open>
  C5. On every call that returns true, every element \<open>(x, y)\<close> of the tensor, read as a
  signed 8-bit value, is the interpolated unsigned 8-bit sample of that pixel minus 128,
  with no scale factor; it lies between -128 and 127.
\<close>

theorem output_is_sample_minus_128:
  assumes "preprocessImageForML env t w = Inr (True, w')"
  shows "\<exists>f rgb gray out'.
           fb w = Some f \<and> fmt2rgb888 env (buf f) (len f) (format f) = Some rgb
         \<and> rgb_to_gray rgb [0..<width f * height f] [] = Inr gray
         \<and> output_buffer w' = Some out'
         \<and> (\<forall>y < nat t. \<forall>x < nat t. \<exists>p.
                resampled gray (int (width f)) (int (height f)) t x y = Inr p
              \<and> sint (out' ! (y * nat t + x)) = uint p - 128
              \<and> - 128 \<le> sint (out' ! (y * nat t + x)) \<and> sint (out' ! (y * nat t + x)) \<le> 127)"
proof -
  from preprocess_True[OF assms] obtain f out rgb gray out' tr' where
    f: "fb w = Some f" and rgb: "fmt2rgb888 env (buf f) (len f) (format f) = Some rgb"
    and gray: "rgb_to_gray rgb [0..<width f * height f] [] = Inr gray"
    and rs: "resize_image gray (int (width f)) (int (height f)) t (out, stores w) = Inr (out', tr')"
    and out': "output_buffer w' = Some out'"
    by blast
  have "\<exists>p. resampled gray (int (width f)) (int (height f)) t x y = Inr p
              \<and> sint (out' ! (y * nat t + x)) = uint p - 128
              \<and> - 128 \<le> sint (out' ! (y * nat t + x)) \<and> sint (out' ! (y * nat t + x)) \<le> 127"
    if "y < nat t" "x < nat t" for x y
  proof -
    from resize_image_char[OF rs] that obtain p where
      p: "resampled gray (int (width f)) (int (height f)) t x y = Inr p"
        "out' ! (y * nat t + x) = quantize p"
      by blast
    have "sint (out' ! (y * nat t + x)) = uint p - 128" by (simp add: p sint_quantize)
    then show ?thesis using p(1) uint8_range[of p] by auto
  qed
  then show ?thesis using f rgb gray out' by blast
qed

theorem output_is_sample_minus_128_witness:
  "preprocessImageForML env_ok 2 world_2x2 =
     Inr (True, world_2x2\<lparr>output_buffer := Some [164, 128, 128, 127, 0], stores := [0, 1, 2, 3],
            serial := [Println ''Converting JPEG to RGB...'',
                       Printf ''Original size: %dx%d\<newline>'' [2, 2],
                       Printf ''Target size: %dx%d\<newline>'' [2, 2],
                       Println ''Converting to grayscale...'',
                       Println ''Resizing image...'',
                       Println ''Preprocessing complete!'']\<rparr>)
   \<and> (\<exists>p. resampled gray_2x2 2 2 2 1 1 = Inr p
          \<and> sint ([164, 128, 128, 127, 0 :: int8_t] ! 3) = uint p - 128
          \<and> - 128 \<le> sint ([164, 128, 128, 127, 0 :: int8_t] ! 3)
          \<and> sint ([164, 128, 128, 127, 0 :: int8_t] ! 3) \<le> 127)"
proof -
  from output_is_sample_minus_128[OF run_2x2]
  have "\<forall>y < 2. \<forall>x < 2. \<exists>p. resampled gray_2x2 2 2 2 x y = Inr p
          \<and> sint ([164, 128, 128, 127, 0 :: int8_t] ! (y * 2 + x)) = uint p - 128
          \<and> - 128 \<le> sint ([164, 128, 128, 127, 0 :: int8_t] ! (y * 2 + x))
          \<and> sint ([164, 128, 128, 127, 0 :: int8_t] ! (y * 2 + x)) \<le> 127"
    by (simp add: world_2x2_def frame_2x2_def env_ok_def gray_of_rgb_2x2)
  from this[rule_format, of 1 1] show ?thesis using run_2x2 by simp
qed

text \<open>
  C6. Identity resize. On every call that returns true for a frame whose width and
  height both equal \<open>target_size\<close>, every element of the tensor is the element of the
  grayscale buffer at the same index minus 128. The side is below \<open>2 ^ 24\<close>, so that every
  pixel coordinate is a binary32 value; a tensor that the 32-bit target can index has a
  side of at most 46340.
\<close>

theorem identity_resize:
  assumes "preprocessImageForML env t w = Inr (True, w')"
    and "fb w = Some f" and "int (width f) = t" and "int (height f) = t" and "t < 2 ^ 24"
  shows "\<exists>rgb gray out'.
           fmt2rgb888 env (buf f) (len f) (format f) = Some rgb
         \<and> rgb_to_gray rgb [0..<width f * height f] [] = Inr gray
         \<and> output_buffer w' = Some out'
         \<and> length gray = nat t * nat t
         \<and> (\<forall>i < nat t * nat t. sint (out' ! i) = uint (gray ! i) - 128)"
proof -
  define n where "n = nat t"
  have wn: "width f = n" and hn: "height f = n" and t: "t = int n" and n: "n < 2 ^ 24"
    using assms(3-5) by (auto simp: n_def)
  from preprocess_True[OF assms(1)] assms(2) obtain out rgb gray out' tr' where
    rgb: "fmt2rgb888 env (buf f) (len f) (format f) = Some rgb"
    and gray: "rgb_to_gray rgb [0..<width f * height f] [] = Inr gray"
    and rs: "resize_image gray (int (width f)) (int (height f)) t (out, stores w) = Inr (out', tr')"
    and out': "output_buffer w' = Some out'"
    by auto
  have len: "length gray = n * n" using rgb_to_gray_upt[OF gray] by (simp add: wn hn)
  have "sint (out' ! i) = uint (gray ! i) - 128" if i: "i < n * n" for i
  proof -
    have n0: "0 < n" using i by (cases n) simp_all
    define y x where "y = i div n" and "x = i mod n"
    have x: "x < n" using n0 by (simp add: x_def)
    have y: "y < n" using i n0 by (simp add: y_def less_mult_imp_div_less)
    have yx: "y * n + x = i" by (simp add: y_def x_def)
    from resize_image_char[OF rs]
    have "\<forall>y<n. \<forall>x<n. \<exists>p. resampled gray (int n) (int n) (int n) x y = Inr p
             \<and> out' ! (y * n + x) = quantize p"
      unfolding wn hn t by simp
    with x y obtain p where
      p: "resampled gray (int n) (int n) (int n) x y = Inr p" "out' ! (y * n + x) = quantize p"
      by blast
    have "p = gray ! (y * n + x)"
      using p(1) resampled_identity[OF x y n len] by simp
    then show ?thesis using p(2) by (simp add: yx sint_quantize)
  qed
  then show ?thesis using rgb gray out' len by (auto simp: n_def)
qed

theorem identity_resize_witness:
  "preprocessImageForML env_ok 2 world_2x2 =
     Inr (True, world_2x2\<lparr>output_buffer := Some [164, 128, 128, 127, 0], stores := [0, 1, 2, 3],
            serial := [Println ''Converting JPEG to RGB...'',
                       Printf ''Original size: %dx%d\<newline>'' [2, 2],
                       Printf ''Target size: %dx%d\<newline>'' [2, 2],
                       Println ''Converting to grayscale...'',
                       Println ''Resizing image...'',
                       Println ''Preprocessing complete!'']\<rparr>)
   \<and> fb world_2x2 = Some frame_2x2 \<and> int (width frame_2x2) = 2 \<and> int (height frame_2x2) = 2
   \<and> (2 :: int) < 2 ^ 24
   \<and> sint ([164, 128, 128, 127, 0 :: int8_t] ! 0) = uint (gray_2x2 ! 0) - 128
   \<and> sint ([164, 128, 128, 127, 0 :: int8_t] ! 3) = uint (gray_2x2 ! 3) - 128"
proof -
  from identity_resize[OF run_2x2, of frame_2x2]
  have a: "\<forall>i < 4. sint ([164, 128, 128, 127, 0 :: int8_t] ! i) = uint (gray_2x2 ! i) - 128"
    by (simp add: world_2x2_def frame_2x2_def env_ok_def gray_of_rgb_2x2)
  from a[rule_format, of 0] a[rule_format, of 3] show ?thesis
    using run_2x2 by (simp add: world_2x2_def frame_2x2_def)
qed

text \<open>
  C7. Edge clamp. For a grayscale buffer of \<open>w * h\<close> samples with \<open>w \<ge> 1\<close> and \<open>h \<ge> 1\<close>,
  \<open>bilinear_interpolate\<close> called at the bottom-right corner, with the binary32 arguments
  \<open>x = w - 1\<close> and \<open>y = h - 1\<close>, reads no index outside the buffer (the result is not an
  error, and the index of the corner lies inside the buffer) and returns exactly the
  corner sample \<open>img[(h - 1) * w + (w - 1)]\<close>. That \<open>w - 1\<close> and \<open>h - 1\<close> are binary32
  values is the fourth and fifth premise.
\<close>

theorem bilinear_interpolate_corner:
  assumes "1 \<le> w" and "1 \<le> h" and "int (length img) = w * h"
    and "f32_round (of_int (w - 1)) = of_int (w - 1)"
    and "f32_round (of_int (h - 1)) = of_int (h - 1)"
  shows "bilinear_interpolate img w h (of_int (w - 1)) (of_int (h - 1))
           = Inr (img ! nat ((h - 1) * w + (w - 1)))
         \<and> 0 \<le> (h - 1) * w + (w - 1) \<and> (h - 1) * w + (w - 1) < int (length img)"
proof -
  have r: "0 \<le> w - 1" "w - 1 < w" "0 \<le> h - 1" "h - 1 < h" using assms(1,2) by simp_all
  have "bilinear_interpolate img w h (of_int (w - 1)) (of_int (h - 1))
           = Inr (img ! nat ((h - 1) * w + (w - 1)))"
    using r assms(3-5) by (intro bilinear_interpolate_grid)
  moreover have "0 \<le> (h - 1) * w + (w - 1) \<and> (h - 1) * w + (w - 1) < w * h"
    using r by (intro idx_in_range)
  ultimately show ?thesis using assms(3) by simp
qed

theorem bilinear_interpolate_corner_witness:
  "(1::int) \<le> 2 \<and> int (length gray_2x2) = 2 * 2 \<and> f32_round (of_int (2 - 1)) = of_int (2 - 1)
   \<and> bilinear_interpolate gray_2x2 2 2 1 1 = Inr 255"
  using bilinear_interpolate_corner[of 2 2 gray_2x2]
  by (simp add: gray_2x2_def f32_round_1)

text \<open>
  C8. The claim: for a 160x120 frame whose top-left 2x2 luma block is 10, 20 over 30, 40,
  resampling to a 2x2 target gives -118, -108 over -98, -88. The code does otherwise: with
  the ratios 160 / 2 = 80 and 120 / 2 = 60 the four output pixels sample the source at
  columns 0 and 80 of rows 0 and 60, all four at grid points. What holds: for every
  160x120 grayscale buffer and every tensor of at least four elements, the resampling
  succeeds, stores the indices 0, 1, 2, 3 and leaves
  \<open>g(0,0) - 128, g(80,0) - 128\<close> over \<open>g(0,60) - 128, g(80,60) - 128\<close>; the tensor is
  -118, -108 over -98, -88 when these four samples are 10, 20, 30, 40.
\<close>

theorem resize_160x120_to_2x2:
  assumes "length gray = 160 * 120" and "4 \<le> length out"
  shows "\<exists>out'. resize_image gray 160 120 2 (out, tr) = Inr (out', tr @ [0, 1, 2, 3])
         \<and> map sint (take 4 out')
             = [uint (gray ! 0) - 128, uint (gray ! 80) - 128,
                uint (gray ! (60 * 160)) - 128, uint (gray ! (60 * 160 + 80)) - 128]
         \<and> (uint (gray ! 0) = 10 \<and> uint (gray ! 80) = 20 \<and> uint (gray ! (60 * 160)) = 30
              \<and> uint (gray ! (60 * 160 + 80)) = 40
             \<longrightarrow> map sint (take 4 out') = [- 118, - 108, - 98, - 88])"
  using assms resize_image_160x120_to_2[of gray out tr]
    take_4_list_update[OF assms(2), of "quantize (gray ! 0)" "quantize (gray ! 80)"
      "quantize (gray ! 9600)" "quantize (gray ! 9680)"]
  by (simp add: sint_quantize)

theorem resize_160x120_to_2x2_witness:
  "length gray_160x120_grid = 160 * 120 \<and> (4::nat) \<le> length [0, 0, 0, 0 :: int8_t]
   \<and> uint (gray_160x120_grid ! 0) = 10 \<and> uint (gray_160x120_grid ! 80) = 20
   \<and> uint (gray_160x120_grid ! (60 * 160)) = 30 \<and> uint (gray_160x120_grid ! (60 * 160 + 80)) = 40
   \<and> (\<exists>out'. resize_image gray_160x120_grid 160 120 2 ([0, 0, 0, 0], []) = Inr (out', [0, 1, 2, 3])
         \<and> map sint (take 4 out') = [- 118, - 108, - 98, - 88])"
  using resize_160x120_to_2x2[of gray_160x120_grid "[0, 0, 0, 0]" "[]"]
  by (simp add: gray_160x120_grid_samples)

text \<open>
  The claim fails on the buffer \<open>gray_160x120\<close>, whose top-left block is 10, 20 over
  30, 40 and whose other samples are 0: the tensor is -118, -128 over -128, -128.
\<close>

theorem top_left_block_is_not_reproduced:
  "length gray_160x120 = 160 * 120
   \<and> [gray_160x120 ! 0, gray_160x120 ! 1, gray_160x120 ! 160, gray_160x120 ! 161] = [10, 20, 30, 40]
   \<and> resize_image gray_160x120 160 120 2 ([0, 0, 0, 0], []) = Inr ([138, 128, 128, 128], [0, 1, 2, 3])
   \<and> map sint [138, 128, 128, 128 :: int8_t] = [- 118, - 128, - 128, - 128]"
proof -
  have "resize_image gray_160x120 160 120 2 ([0, 0, 0, 0], []) = Inr ([138, 128, 128, 128], [0, 1, 2, 3])"
    using resize_image_160x120_to_2[of gray_160x120 "[0, 0, 0, 0]" "[]"]
    by (simp add: gray_160x120_samples quantize_def)
  then show ?thesis by (simp add: gray_160x120_samples)
qed

text \<open>
  C9. Determinism. Two calls on the same frame (contents, length, dimensions, format) with
  the same \<open>target_size\<close> and the same conversion function, both returning true, leave
  the same \<open>target_size * target_size\<close> elements in their tensors, whatever the
  allocators, the heaps, the serial logs and the previous contents of the two tensors.
\<close>

theorem preprocess_deterministic:
  assumes "preprocessImageForML env1 t w1 = Inr (True, w1')"
    and "preprocessImageForML env2 t w2 = Inr (True, w2')"
    and "fb w1 = fb w2" and "fmt2rgb888 env1 = fmt2rgb888 env2"
  shows "\<exists>o1 o2. output_buffer w1' = Some o1 \<and> output_buffer w2' = Some o2
           \<and> nat t * nat t \<le> length o1 \<and> nat t * nat t \<le> length o2
           \<and> take (nat t * nat t) o1 = take (nat t * nat t) o2"
proof -
  define n where "n = nat t"
  from preprocess_True[OF assms(1)] obtain f out1 rgb gray o1 tr1 where
    f: "fb w1 = Some f" and rgb: "fmt2rgb888 env1 (buf f) (len f) (format f) = Some rgb"
    and gray: "rgb_to_gray rgb [0..<width f * height f] [] = Inr gray"
    and r1: "resize_image gray (int (width f)) (int (height f)) t (out1, stores w1) = Inr (o1, tr1)"
    and o1: "output_buffer w1' = Some o1"
    by blast
  from preprocess_True[OF assms(2)] f rgb gray assms(3,4) obtain out2 o2 tr2 where
    r2: "resize_image gray (int (width f)) (int (height f)) t (out2, stores w2) = Inr (o2, tr2)"
    and o2: "output_buffer w2' = Some o2"
    by auto
  note c1 = resize_image_char[OF r1, folded n_def]
  note c2 = resize_image_char[OF r2, folded n_def]
  have l1: "n * n \<le> length o1" and l2: "n * n \<le> length o2" using c1 c2 by simp_all
  have "take (n * n) o1 = take (n * n) o2"
  proof (rule nth_equalityI)
    show "length (take (n * n) o1) = length (take (n * n) o2)" using l1 l2 by simp
    fix i assume "i < length (take (n * n) o1)"
    then have i: "i < n * n" by simp
    then have n0: "0 < n" by (cases n) simp_all
    define y x where "y = i div n" and "x = i mod n"
    have x: "x < n" using n0 by (simp add: x_def)
    have y: "y < n" using i n0 by (simp add: y_def less_mult_imp_div_less)
    have yx: "y * n + x = i" by (simp add: y_def x_def)
    from c1 x y obtain p1 where
      p1: "resampled gray (int (width f)) (int (height f)) t x y = Inr p1" "o1 ! (y * n + x) = quantize p1"
      by blast
    from c2 x y obtain p2 where
      p2: "resampled gray (int (width f)) (int (height f)) t x y = Inr p2" "o2 ! (y * n + x) = quantize p2"
      by blast
    from p1 p2 have "o1 ! i = o2 ! i" by (simp add: yx)
    then show "take (n * n) o1 ! i = take (n * n) o2 ! i" using i by simp
  qed
  then show ?thesis using o1 o2 l1 l2 by (simp add: n_def)
qed

theorem preprocess_deterministic_witness:
  "fb world_2x2 = fb world_2x2_used \<and> fmt2rgb888 env_ok = fmt2rgb888 env_small_heap
   \<and> malloc_ok env_ok \<noteq> malloc_ok env_small_heap
   \<and> output_buffer world_2x2 \<noteq> output_buffer world_2x2_used
   \<and> (\<exists>w1' w2' o1 o2.
        preprocessImageForML env_ok 2 world_2x2 = Inr (True, w1')
      \<and> preprocessImageForML env_small_heap 2 world_2x2_used = Inr (True, w2')
      \<and> output_buffer w1' = Some o1 \<and> output_buffer w2' = Some o2
      \<and> take 4 o1 = take 4 o2)"
proof -
  have a: "fb world_2x2 = fb world_2x2_used" "fmt2rgb888 env_ok = fmt2rgb888 env_small_heap"
    by (simp_all add: world_2x2_def world_2x2_used_def env_ok_def env_small_heap_def)
  have b: "malloc_ok env_ok \<noteq> malloc_ok env_small_heap"
  proof
    assume "malloc_ok env_ok = malloc_ok env_small_heap"
    then have "malloc_ok env_ok Gray_buf 100 = malloc_ok env_small_heap Gray_buf 100" by simp
    then show False by (simp add: env_ok_def env_small_heap_def)
  qed
  have c: "output_buffer world_2x2 \<noteq> output_buffer world_2x2_used"
    by (simp add: world_2x2_def world_2x2_used_def)
  from preprocess_deterministic[OF run_2x2 run_2x2_used a] run_2x2 run_2x2_used
  show ?thesis using a b c by simp
qed

text \<open>
  C10. On every call that returns true, the stores through \<open>output_buffer\<close> are, in
  this order, those of the indices \<open>0, 1, ..., target_size * target_size - 1\<close>: every
  index below \<open>target_size * target_size\<close> is stored exactly once and no other index is
  stored; the tensor keeps its length and its elements from \<open>target_size * target_size\<close>
  on; the frame behind \<open>fb\<close> is the same after the call as before.
\<close>

theorem tensor_written_once_frame_untouched:
  assumes "preprocessImageForML env t w = Inr (True, w')"
  shows "stores w' = stores w @ [0..<nat t * nat t]
       \<and> (\<forall>i. count_list (stores w') i
               = count_list (stores w) i + (if i < nat t * nat t then 1 else 0))
       \<and> fb w' = fb w
       \<and> (\<exists>out out'. output_buffer w = Some out \<and> output_buffer w' = Some out'
             \<and> length out' = length out \<and> nat t * nat t \<le> length out
             \<and> (\<forall>j \<ge> nat t * nat t. out' ! j = out ! j))"
proof -
  from preprocess_True[OF assms] obtain f out rgb gray out' tr' where
    f: "fb w = Some f" and rgb: "fmt2rgb888 env (buf f) (len f) (format f) = Some rgb"
    and gray: "rgb_to_gray rgb [0..<width f * height f] [] = Inr gray"
    and out: "output_buffer w = Some out"
    and rs: "resize_image gray (int (width f)) (int (height f)) t (out, stores w) = Inr (out', tr')"
    and w': "output_buffer w' = Some out'" "stores w' = tr'" "fb w' = fb w"
    by blast
  from resize_image_char[OF rs] show ?thesis
    using out w' by (simp add: count_list_upt)
qed

theorem tensor_written_once_frame_untouched_witness:
  "preprocessImageForML env_ok 2 world_2x2 =
     Inr (True, world_2x2\<lparr>output_buffer := Some [164, 128, 128, 127, 0], stores := [0, 1, 2, 3],
            serial := [Println ''Converting JPEG to RGB...'',
                       Printf ''Original size: %dx%d\<newline>'' [2, 2],
                       Printf ''Target size: %dx%d\<newline>'' [2, 2],
                       Println ''Converting to grayscale...'',
                       Println ''Resizing image...'',
                       Println ''Preprocessing complete!'']\<rparr>)
   \<and> [0, 1, 2, 3] = stores world_2x2 @ [0..<4]
   \<and> count_list [0, 1, 2, 3 :: nat] 2 = count_list (stores world_2x2) 2 + 1
   \<and> count_list [0, 1, 2, 3 :: nat] 4 = count_list (stores world_2x2) 4
   \<and> fb world_2x2 = Some frame_2x2
   \<and> [164, 128, 128, 127, 0 :: int8_t] ! 4 = [0, 0, 0, 0, 0] ! 4"
proof -
  have u: "[0..<4] = [0, 1, 2, 3::nat]" by (simp add: upt_rec)
  have c: "count_list [0, 1, 2, 3 :: nat] 2 = 1" "count_list [0, 1, 2, 3 :: nat] 4 = 0" by simp_all
  note t = tensor_written_once_frame_untouched[OF run_2x2]
  from t have "stores world_2x2 @ [0..<4] = [0, 1, 2, 3]" by (simp add: u)
  moreover have "count_list (stores world_2x2) 2 = 0" "count_list (stores world_2x2) 4 = 0"
    "fb world_2x2 = Some frame_2x2"
    by (simp_all add: world_2x2_def)
  ultimately show ?thesis using run_2x2 c by simp
qed

end
